theory Spec2Isabelle
  imports Main "HOL-Library.AList" "HOL-Library.Sublist" "HOL-Library.Monad_Syntax"
begin

section \<open>Snooty: a scraping DSL (notebook prototype)\<close>

text \<open>
  The notebook \<^verbatim>\<open>snooty.ipynb\<close> declares the grammar classes of the language (cell 2),
  the interpreter \<^verbatim>\<open>run(code, html)\<close> (cell 3), a sample document and a sample script
  (cells 4 and 5) and records the output of one run (cell 6).  This theory embeds the
  statement classes as a datatype, Python's dictionaries and lists as values, the
  exceptions as a sum type and the process-wide effects (the C locale, standard output)
  as an explicit process state that \<open>run\<close> receives and returns.
\<close>

subsection \<open>Statements (cell 2)\<close>

text \<open>\<^verbatim>\<open>class Selector: grammar = attr('parent', word), '->', attr('child', word)\<close>\<close>

record Selector =
  parent :: string
  child :: string

text \<open>\<^verbatim>\<open>class DottedName(List): grammar = csl(str, separator='.')\<close>\<close>

type_synonym DottedName = "string list"

text \<open>
  The four statement classes that \<^verbatim>\<open>Script\<close> lists, with the attributes their grammars
  set.  \<open>run\<close> dispatches with \<^verbatim>\<open>isinstance\<close> and has a final \<^verbatim>\<open>else\<close> for an object of
  any other class; \<open>OtherStatement\<close> stands for such an object and carries its \<^verbatim>\<open>str()\<close>.
\<close>

datatype stmt =
    Comment string
  | ExportStatement DottedName string
  | LocaleStatement string
  | SelectorStatement string Selector
  | OtherStatement string

type_synonym Script = "stmt list"

subsection \<open>Python values and exceptions\<close>

text \<open>
  \<^verbatim>\<open>export\<close> is a dictionary whose values are dictionaries or lists of \<^verbatim>\<open>bytes\<close>
  objects.  A dictionary keeps its keys in insertion order (the interpreter of the
  notebook is Python 3.7), so it is an association list: a new key goes to the end, an
  assignment to a key already present keeps the key's place.
\<close>

type_synonym bytes = string

datatype pyvalue =
    PyList "bytes list"
  | PyDict "(string \<times> pyvalue) list"

text \<open>
  The exceptions a run can end with.  \<open>NotModelled\<close> is no exception of Python: the models
  of the two parsing libraries below answer it for an input outside the part of the
  library they describe.
\<close>

datatype error =
    SyntaxError
  | XMLSyntaxError
  | LocaleError
  | KeyError string
  | TypeError
  | IndexError
  | XPathEvalError
  | NotModelled

text \<open>What \<^verbatim>\<open>print\<close> wrote: the statement of the \<^verbatim>\<open>else\<close> branch, or the export dictionary.\<close>

datatype printed =
    PrintStmt string
  | PrintExport pyvalue

text \<open>
  The state of the Python process that outlives a call of \<open>run\<close>: the locale set with
  \<^verbatim>\<open>locale.setlocale(locale.LC_ALL, ...)\<close> and what was printed.  \<open>installed\<close> lists the
  locale names the host knows; it never changes.
\<close>

record process =
  installed :: "string list"
  lc_all :: string
  stdout :: "printed list"

subsection \<open>The export dictionary (lines 105 to 111 of \<open>run\<close>)\<close>

text \<open>
  \<^verbatim>\<open>
  exp = export
  for name in stmt.name[:-1]:
      if name not in exp:
          exp[name] = dict()
      exp = exp[name]
  \<close>
  \<open>exp\<close> is an alias into the nested dictionaries, so the loop is a walk down the tree
  that creates the dictionaries it misses.  When \<open>exp\<close> has become a list (an earlier
  export stored its leaf there), \<^verbatim>\<open>name not in exp\<close> is true (a \<^verbatim>\<open>str\<close> never equals a
  \<^verbatim>\<open>bytes\<close>) and \<^verbatim>\<open>exp[name] = dict()\<close> raises \<^verbatim>\<open>TypeError\<close>.
\<close>

fun descend :: "string list \<Rightarrow> pyvalue \<Rightarrow> error + pyvalue" where
  "descend [] exp = Inr exp"
| "descend (name # names) (PyList xs) = Inl TypeError"
| "descend (name # names) (PyDict kvs) =
     (case descend names (case map_of kvs name of None \<Rightarrow> PyDict [] | Some v \<Rightarrow> v) of
        Inl e \<Rightarrow> Inl e
      | Inr sub \<Rightarrow> Inr (PyDict (AList.update name sub kvs)))"

text \<open>
  \<^verbatim>\<open>exp[key] = v\<close> for the \<open>exp\<close> that the walk along \<open>names\<close> reached: a list
  refuses a string index with \<^verbatim>\<open>TypeError\<close>, a dictionary without the key on the way
  raises \<^verbatim>\<open>KeyError\<close>.
\<close>

fun setitem_at :: "string list \<Rightarrow> string \<Rightarrow> pyvalue \<Rightarrow> pyvalue \<Rightarrow> error + pyvalue" where
  "setitem_at names key v (PyList xs) = Inl TypeError"
| "setitem_at [] key v (PyDict kvs) = Inr (PyDict (AList.update key v kvs))"
| "setitem_at (name # names) key v (PyDict kvs) =
     (case map_of kvs name of
        None \<Rightarrow> Inl (KeyError name)
      | Some sub \<Rightarrow>
          (case setitem_at names key v sub of
             Inl e \<Rightarrow> Inl e
           | Inr sub' \<Rightarrow> Inr (PyDict (AList.update name sub' kvs))))"

text \<open>Reading the value at a dotted path, as \<^verbatim>\<open>export['a']['b']['c']\<close> does.\<close>

fun lookup_path :: "string list \<Rightarrow> pyvalue \<Rightarrow> pyvalue option" where
  "lookup_path [] v = Some v"
| "lookup_path (name # names) (PyList xs) = None"
| "lookup_path (name # names) (PyDict kvs) =
     (case map_of kvs name of None \<Rightarrow> None | Some v \<Rightarrow> lookup_path names v)"

subsection \<open>The document: lxml's element tree\<close>

text \<open>
  An lxml element has a tag, attributes in document order, the text before its first
  child, its children, and the tail: the text between its end tag and the next tag.
  An absent text or tail is the empty string.
\<close>

datatype element =
  Element (tag: string) (attrib: "(string \<times> string) list") (etext: string)
    (children: "element list") (tail: string)

text \<open>
  The characters of a document, as far as the model goes: the ASCII letters, digits
  and four more in names, three kinds of white space, the printable ASCII characters.
\<close>

definition name_start_char :: "char \<Rightarrow> bool" where
  "name_start_char c \<longleftrightarrow> c \<in> set ''abcdefghijklmnopqrstuvwxyzABCDEFGHIJKLMNOPQRSTUVWXYZ_''"

definition name_char :: "char \<Rightarrow> bool" where
  "name_char c \<longleftrightarrow>
     c \<in> set ''abcdefghijklmnopqrstuvwxyzABCDEFGHIJKLMNOPQRSTUVWXYZ_0123456789-.''"

definition xml_space :: "char \<Rightarrow> bool" where
  "xml_space c \<longleftrightarrow> c \<in> set [CHR 0x20, CHR 0x09, CHR 0x0A]"

definition ascii_char :: "char \<Rightarrow> bool" where
  "ascii_char c \<longleftrightarrow> xml_space c \<or> (33 \<le> (of_char c :: nat) \<and> (of_char c :: nat) \<le> 126)"

text \<open>
  The elements the model serialises: the tag and the attribute names are names
  without a colon (no namespaces), no attribute is called \<^verbatim>\<open>xmlns\<close>, no name comes twice
  among the attributes of an element, and every character of a text, a tail or an
  attribute value is an ASCII character or a carriage return.
\<close>

definition content_char :: "char \<Rightarrow> bool" where
  "content_char c \<longleftrightarrow> ascii_char c \<or> c = CHR 0x0D"

definition ncname :: "string \<Rightarrow> bool" where
  "ncname n \<longleftrightarrow> n \<noteq> [] \<and> name_start_char (hd n) \<and> list_all name_char n"

definition plain_attribute :: "string \<times> string \<Rightarrow> bool" where
  "plain_attribute kv \<longleftrightarrow>
     ncname (fst kv) \<and> fst kv \<noteq> ''xmlns'' \<and> list_all content_char (snd kv)"

fun serialisable :: "element \<Rightarrow> bool" where
  "serialisable (Element t ats x cs ta) \<longleftrightarrow>
     ncname t \<and> list_all plain_attribute ats \<and> distinct (map fst ats) \<and>
     list_all content_char x \<and> list_all serialisable cs \<and> list_all content_char ta"

text \<open>
  \<^verbatim>\<open>etree.tostring(e)\<close> with its defaults: the XML serialisation of the element as
  ASCII bytes, followed by the element's tail (\<^verbatim>\<open>with_tail=True\<close>).  Attribute values
  are written in double quotes whatever the input used; an element without text and
  children is written \<^verbatim>\<open><tag/>\<close>; markup characters are escaped, and so are a carriage
  return and, in an attribute value, a tab and a line feed.  For an element that is
  not \<open>serialisable\<close> (characters outside ASCII, which lxml writes as character
  references, namespaces) the answer is \<open>NotModelled\<close>.  Comments and processing
  instructions are no values of \<open>element\<close>.
\<close>

fun escape_text :: "string \<Rightarrow> string" where
  "escape_text [] = []"
| "escape_text (c # cs) =
     (if c = CHR ''<'' then ''&lt;''
      else if c = CHR ''>'' then ''&gt;''
      else if c = CHR ''&'' then ''&amp;''
      else if c = CHR 0x0D then ''&#13;''
      else [c]) @ escape_text cs"

fun escape_attr :: "string \<Rightarrow> string" where
  "escape_attr [] = []"
| "escape_attr (c # cs) =
     (if c = CHR ''<'' then ''&lt;''
      else if c = CHR ''>'' then ''&gt;''
      else if c = CHR ''&'' then ''&amp;''
      else if c = CHR 0x22 then ''&quot;''
      else if c = CHR 0x09 then ''&#9;''
      else if c = CHR 0x0A then ''&#10;''
      else if c = CHR 0x0D then ''&#13;''
      else [c]) @ escape_attr cs"

definition attr_tostring :: "string \<times> string \<Rightarrow> bytes" where
  "attr_tostring kv = '' '' @ fst kv @ [CHR ''='', CHR 0x22] @ escape_attr (snd kv) @ [CHR 0x22]"

text \<open>The element with its content, every child followed by its tail.\<close>

fun node_dump :: "element \<Rightarrow> bytes" where
  "node_dump (Element t ats x cs ta) =
     ''<'' @ t @ concat (map attr_tostring ats) @
     (if x = [] \<and> cs = [] then ''/>''
      else ''>'' @ escape_text x @ concat (map (\<lambda>c. node_dump c @ escape_text (tail c)) cs) @
           ''</'' @ t @ ''>'')"

definition tostring :: "element \<Rightarrow> error + bytes" where
  "tostring e =
     (if serialisable e then Inr (node_dump e @ escape_text (tail e)) else Inl NotModelled)"

text \<open>
  \<^verbatim>\<open>[etree.tostring(e) for e in ...]\<close>: the elements in turn; the first exception ends
  the comprehension.
\<close>

fun tostring_each :: "element list \<Rightarrow> error + bytes list" where
  "tostring_each [] = Inr []"
| "tostring_each (e # es) =
     (case tostring e of
        Inl err \<Rightarrow> Inl err
      | Inr b \<Rightarrow> (case tostring_each es of Inl err \<Rightarrow> Inl err | Inr bs \<Rightarrow> Inr (b # bs)))"

subsection \<open>The query \<^verbatim>\<open>doc.xpath('//{}/{}'.format(sel.parent, sel.child))\<close>\<close>

text \<open>
  XPath 1.0 reads \<^verbatim>\<open>//P/C\<close> as \<^verbatim>\<open>/descendant-or-self::node()/child::P/child::C\<close>,
  evaluated from the document node, whose only child is the root element.  A node of
  the tree is the document node or an element at a position: the list of child
  indices that leads to it from the root element.  (Text nodes are left out: a name
  test never selects one and they have no children.)
\<close>

datatype xnode =
    DocumentNode
  | ElementNode "nat list"

fun element_at :: "element \<Rightarrow> nat list \<Rightarrow> element option" where
  "element_at e [] = Some e"
| "element_at e (i # pos) =
     (if i < length (children e) then element_at (children e ! i) pos else None)"

text \<open>The positions of all elements, in document order.\<close>

fun positions :: "element \<Rightarrow> nat list list"
  and positions_list :: "nat \<Rightarrow> element list \<Rightarrow> nat list list" where
  "positions (Element t ats x cs ta) = [] # positions_list 0 cs"
| "positions_list i [] = []"
| "positions_list i (c # cs) = map ((#) i) (positions c) @ positions_list (Suc i) cs"

text \<open>The axes, each in document order.\<close>

fun child_axis :: "element \<Rightarrow> xnode \<Rightarrow> xnode list" where
  "child_axis root DocumentNode = [ElementNode []]"
| "child_axis root (ElementNode pos) =
     (case element_at root pos of
        None \<Rightarrow> []
      | Some e \<Rightarrow> map (\<lambda>i. ElementNode (pos @ [i])) [0..<length (children e)])"

definition descendant_or_self_root :: "element \<Rightarrow> xnode list" where
  "descendant_or_self_root root = DocumentNode # map ElementNode (positions root)"

fun name_test :: "element \<Rightarrow> string \<Rightarrow> xnode \<Rightarrow> bool" where
  "name_test root n DocumentNode = False"
| "name_test root n (ElementNode pos) =
     (case element_at root pos of None \<Rightarrow> False | Some e \<Rightarrow> tag e = n)"

text \<open>One step \<^verbatim>\<open>child::n\<close> from every node of a context.\<close>

definition step_child :: "element \<Rightarrow> string \<Rightarrow> xnode list \<Rightarrow> xnode list" where
  "step_child root n ctx = filter (name_test root n) (concat (map (child_axis root) ctx))"

fun node_element :: "element \<Rightarrow> xnode \<Rightarrow> element list" where
  "node_element root DocumentNode = []"
| "node_element root (ElementNode pos) =
     (case element_at root pos of None \<Rightarrow> [] | Some e \<Rightarrow> [e])"

text \<open>The result of a path is a node-set; lxml returns its elements in document order.\<close>

definition xpath_path :: "element \<Rightarrow> string \<Rightarrow> string \<Rightarrow> element list" where
  "xpath_path root p c =
     (let every = descendant_or_self_root root;
          hits = step_child root c (step_child root p every)
      in concat (map (node_element root) (filter (\<lambda>n. n \<in> set hits) every)))"

text \<open>
  The grammar gives \<open>parent\<close> and \<open>child\<close> no other strings than words (\<^verbatim>\<open>\w+\<close>).  Of
  the ASCII words, those that do not start with a digit are XPath names; with a word
  that starts with a digit the expression is malformed and lxml raises
  \<^verbatim>\<open>XPathEvalError\<close>.  Strings that are no ASCII words are outside the model.
\<close>

definition word_char :: "char \<Rightarrow> bool" where
  "word_char c \<longleftrightarrow>
     c \<in> set ''abcdefghijklmnopqrstuvwxyzABCDEFGHIJKLMNOPQRSTUVWXYZ0123456789_''"

definition digit_char :: "char \<Rightarrow> bool" where
  "digit_char c \<longleftrightarrow> c \<in> set ''0123456789''"

definition is_word :: "string \<Rightarrow> bool" where
  "is_word w \<longleftrightarrow> w \<noteq> [] \<and> list_all word_char w"

definition is_name :: "string \<Rightarrow> bool" where
  "is_name w \<longleftrightarrow> is_word w \<and> \<not> digit_char (hd w)"

definition xpath :: "element \<Rightarrow> Selector \<Rightarrow> error + element list" where
  "xpath doc sel =
     (if is_name (parent sel) \<and> is_name (child sel)
      then Inr (xpath_path doc (parent sel) (child sel))
      else if is_word (parent sel) \<and> is_word (child sel) then Inl XPathEvalError
      else Inl NotModelled)"

subsection \<open>The interpreter (cell 3)\<close>

text \<open>The two local dictionaries of \<open>run\<close>: \<^verbatim>\<open>selectors\<close> and \<^verbatim>\<open>export\<close>.\<close>

type_synonym locals = "(string \<rightharpoonup> Selector) \<times> pyvalue"

text \<open>
  The \<^verbatim>\<open>ExportStatement\<close> branch, in the order in which Python evaluates it: the walk
  along \<^verbatim>\<open>stmt.name[:-1]\<close>, then \<^verbatim>\<open>selectors[stmt.selector]\<close>, then the right-hand
  side (the query and the serialisation of every hit), then \<^verbatim>\<open>stmt.name[-1]\<close>, then
  the assignment to \<^verbatim>\<open>exp[...]\<close>.
\<close>

definition export_branch ::
  "element \<Rightarrow> DottedName \<Rightarrow> string \<Rightarrow> locals \<Rightarrow> error + locals" where
  "export_branch doc dotted ref st =
     (case descend (butlast dotted) (snd st) of
        Inl e \<Rightarrow> Inl e
      | Inr exp1 \<Rightarrow>
          (case fst st ref of
             None \<Rightarrow> Inl (KeyError ref)
           | Some sel \<Rightarrow>
               (case xpath doc sel of
                  Inl e \<Rightarrow> Inl e
                | Inr hits \<Rightarrow>
                    (case tostring_each hits of
                       Inl e \<Rightarrow> Inl e
                     | Inr leaf \<Rightarrow>
                         (if dotted = [] then Inl IndexError
                          else
                            (case setitem_at (butlast dotted) (last dotted) (PyList leaf) exp1 of
                               Inl e \<Rightarrow> Inl e
                             | Inr exp2 \<Rightarrow> Inr (fst st, exp2)))))))"

text \<open>
  One turn of \<^verbatim>\<open>for stmt in ast\<close>.  An exception ends the run; the process state at
  that moment stays as it is.
\<close>

fun exec_stmt :: "element \<Rightarrow> stmt \<Rightarrow> locals \<Rightarrow> process \<Rightarrow> (error + locals) \<times> process" where
  "exec_stmt doc (LocaleStatement l) st pr =
     (if l \<in> set (installed pr) then (Inr st, pr\<lparr>lc_all := l\<rparr>) else (Inl LocaleError, pr))"
| "exec_stmt doc (SelectorStatement n sel) st pr = (Inr ((fst st)(n \<mapsto> sel), snd st), pr)"
| "exec_stmt doc (Comment t) st pr = (Inr st, pr)"
| "exec_stmt doc (ExportStatement dotted ref) st pr = (export_branch doc dotted ref st, pr)"
| "exec_stmt doc (OtherStatement s) st pr = (Inr st, pr\<lparr>stdout := stdout pr @ [PrintStmt s]\<rparr>)"

fun exec :: "element \<Rightarrow> Script \<Rightarrow> locals \<Rightarrow> process \<Rightarrow> (error + locals) \<times> process" where
  "exec doc [] st pr = (Inr st, pr)"
| "exec doc (s # ss) st pr =
     (case exec_stmt doc s st pr of
        (Inl e, pr') \<Rightarrow> (Inl e, pr')
      | (Inr st', pr') \<Rightarrow> exec doc ss st' pr')"

text \<open>
  The two parsers \<open>run\<close> calls are libraries: \<^verbatim>\<open>parse(text, Script)\<close> of pypeg2 and
  \<^verbatim>\<open>etree.fromstring\<close> of lxml.  \<open>run\<close> takes them as a parameter.
\<close>

record library =
  parse :: "string \<Rightarrow> error + Script"
  fromstring :: "string \<Rightarrow> error + element"

text \<open>The module namespace: \<open>run\<close> reads the global name \<^verbatim>\<open>scraper\<close>.\<close>

record globals =
  scraper :: string

text \<open>
  \<^verbatim>\<open>
  def run(code, html):
      ast = parse(scraper, Script)
      doc = etree.fromstring(html)
      selectors = {}
      export = {}
      for stmt in ast: ...
      print(export)
  \<close>
  \<open>run\<close> has no \<^verbatim>\<open>return\<close>: its value is \<^verbatim>\<open>None\<close>, here the unit value.
\<close>

definition run ::
  "library \<Rightarrow> globals \<Rightarrow> string \<Rightarrow> string \<Rightarrow> process \<Rightarrow> (error + unit) \<times> process" where
  "run lib g code html pr =
     (case parse lib (scraper g) of
        Inl e \<Rightarrow> (Inl e, pr)
      | Inr ast \<Rightarrow>
          (case fromstring lib html of
             Inl e \<Rightarrow> (Inl e, pr)
           | Inr doc \<Rightarrow>
               (case exec doc ast (Map.empty, PyDict []) pr of
                  (Inl e, pr') \<Rightarrow> (Inl e, pr')
                | (Inr st, pr') \<Rightarrow> (Inr (), pr'\<lparr>stdout := stdout pr' @ [PrintExport (snd st)]\<rparr>))))"

section \<open>The two parsing libraries\<close>

text \<open>
  pypeg2 and lxml are not part of the notebook.  \<open>run\<close> is stated for any pair of parsers
  (the record \<open>library\<close>); the definitions of this section describe the two libraries on
  ASCII input, closely enough to run the notebook's own script and document, and answer
  \<open>NotModelled\<close> elsewhere.
\<close>

subsection \<open>pypeg2: \<^verbatim>\<open>parse(text, Script)\<close>\<close>

text \<open>
  A grammar element is tried at the start of the remaining text and gives a value and
  the text left, or does not match.  After every terminal pypeg2 skips white space (its
  default \<^verbatim>\<open>whitespace\<close> is the regular expression \<^verbatim>\<open>(?m)\s+\<close>, so line ends count as
  white space).
\<close>

definition space_char :: "char \<Rightarrow> bool" where
  "space_char c \<longleftrightarrow>
     c \<in> set [CHR 0x09, CHR 0x0A, CHR 0x0B, CHR 0x0C, CHR 0x0D,
              CHR 0x1C, CHR 0x1D, CHR 0x1E, CHR 0x1F, CHR 0x20]"

definition skip :: "string \<Rightarrow> string" where
  "skip s = dropWhile space_char s"

type_synonym 'a parser = "string \<Rightarrow> ('a \<times> string) option"

text \<open>A string in a grammar matches itself at the start of the text.\<close>

definition literal :: "string \<Rightarrow> unit parser" where
  "literal l s = (if prefix l s then Some ((), skip (drop (length l) s)) else None)"

text \<open>
  \<^verbatim>\<open>word = re.compile(r"\w+")\<close>; the grammar's \<^verbatim>\<open>name()\<close> (a \<^verbatim>\<open>Symbol\<close>) and \<^verbatim>\<open>str\<close>
  scan a word as well.
\<close>

definition word :: "string parser" where
  "word s =
     (let w = takeWhile word_char s
      in if w = [] then None else Some (w, skip (dropWhile word_char s)))"

text \<open>\<^verbatim>\<open>restline = re.compile(r".*")\<close>: up to the end of the line.\<close>

definition restline :: "string parser" where
  "restline s =
     Some (takeWhile (\<lambda>c. c \<noteq> CHR 0x0A) s, skip (dropWhile (\<lambda>c. c \<noteq> CHR 0x0A) s))"

text \<open>
  \<^verbatim>\<open>class Comment: grammar = '#', attr('text', restline), endl\<close>.  \<^verbatim>\<open>endl\<close> matters
  only when a statement is written out; the parser passes it by.  The white space
  after \<^verbatim>\<open>#\<close> is skipped as after every terminal, line ends included: a \<^verbatim>\<open>#\<close> alone on
  its line takes the text of the next line.
\<close>

definition Comment_grammar :: "stmt parser" where
  "Comment_grammar s = do {
     (_, s1) \<leftarrow> literal ''#'' s;
     (t, s2) \<leftarrow> restline s1;
     Some (Comment t, s2) }"

text \<open>\<^verbatim>\<open>class LocaleStatement: grammar = 'locale', attr('locale', word)\<close>\<close>

definition LocaleStatement_grammar :: "stmt parser" where
  "LocaleStatement_grammar s = do {
     (_, s1) \<leftarrow> literal ''locale'' s;
     (l, s2) \<leftarrow> word s1;
     Some (LocaleStatement l, s2) }"

text \<open>\<^verbatim>\<open>class Selector: grammar = attr('parent', word), '->', attr('child', word)\<close>\<close>

definition Selector_grammar :: "Selector parser" where
  "Selector_grammar s = do {
     (p, s1) \<leftarrow> word s;
     (_, s2) \<leftarrow> literal ''->'' s1;
     (c, s3) \<leftarrow> word s2;
     Some (\<lparr>parent = p, child = c\<rparr>, s3) }"

text \<open>\<^verbatim>\<open>class SelectorStatement: grammar = 'selector', name(), '=', attr('selector', Selector)\<close>\<close>

definition SelectorStatement_grammar :: "stmt parser" where
  "SelectorStatement_grammar s = do {
     (_, s1) \<leftarrow> literal ''selector'' s;
     (n, s2) \<leftarrow> word s1;
     (_, s3) \<leftarrow> literal ''='' s2;
     (sel, s4) \<leftarrow> Selector_grammar s3;
     Some (SelectorStatement n sel, s4) }"

lemma skip_length: "length (skip s) \<le> length s"
  by (simp add: skip_def length_dropWhile_le)

lemma literal_shorter: "literal l s = Some (u, s') \<Longrightarrow> l \<noteq> [] \<Longrightarrow> length s' < length s"
  using skip_length[of "drop (length l) s"]
  by (cases l) (auto simp: literal_def prefix_def split: if_splits)

lemma word_shorter: "word s = Some (w, s') \<Longrightarrow> length s' < length s"
proof -
  assume a: "word s = Some (w, s')"
  then have w: "takeWhile word_char s \<noteq> []" and s': "s' = skip (dropWhile word_char s)"
    by (auto simp: word_def Let_def split: if_splits)
  have "length (takeWhile word_char s) + length (dropWhile word_char s) = length s"
    by (metis length_append takeWhile_dropWhile_id)
  with w have "length (dropWhile word_char s) < length s"
    by (cases "takeWhile word_char s") auto
  with skip_length[of "dropWhile word_char s"] s' show ?thesis by simp
qed

text \<open>
  \<^verbatim>\<open>class DottedName(List): grammar = csl(str, separator='.')\<close>, that is one \<^verbatim>\<open>str\<close> and
  then \<^verbatim>\<open>maybe_some('.', str)\<close>.
\<close>

function dotted_more :: "string \<Rightarrow> string list \<times> string" where
  "dotted_more s =
     (case literal ''.'' s of
        None \<Rightarrow> ([], s)
      | Some (u, s1) \<Rightarrow>
          (case word s1 of
             None \<Rightarrow> ([], s)
           | Some (w, s2) \<Rightarrow> (case dotted_more s2 of (ws, s3) \<Rightarrow> (w # ws, s3))))"
  by pat_completeness auto
termination
  by (relation "measure length") (auto dest!: literal_shorter word_shorter)

declare dotted_more.simps [simp del]

definition DottedName_grammar :: "DottedName parser" where
  "DottedName_grammar s = do {
     (w, s1) \<leftarrow> word s;
     (case dotted_more s1 of (ws, s2) \<Rightarrow> Some (w # ws, s2)) }"

text \<open>\<^verbatim>\<open>class ExportStatement: grammar = 'export', attr('name', DottedName), '=', attr('selector', str)\<close>\<close>

definition ExportStatement_grammar :: "stmt parser" where
  "ExportStatement_grammar s = do {
     (_, s1) \<leftarrow> literal ''export'' s;
     (d, s2) \<leftarrow> DottedName_grammar s1;
     (_, s3) \<leftarrow> literal ''='' s2;
     (ref, s4) \<leftarrow> word s3;
     Some (ExportStatement d ref, s4) }"

text \<open>A list in a grammar is an ordered choice: the first alternative that matches.\<close>

fun first_of :: "'a parser list \<Rightarrow> 'a parser" where
  "first_of [] s = None"
| "first_of (p # ps) s = (case p s of None \<Rightarrow> first_of ps s | Some r \<Rightarrow> Some r)"

text \<open>
  \<^verbatim>\<open>
  class Script(List):
      grammar = maybe_some([Comment, ExportStatement, LocaleStatement, SelectorStatement])
  \<close>
\<close>

definition statement :: "stmt parser" where
  "statement = first_of
     [Comment_grammar, ExportStatement_grammar, LocaleStatement_grammar, SelectorStatement_grammar]"

lemma restline_le: "restline s = Some (t, s') \<Longrightarrow> length s' \<le> length s"
  using skip_length[of "dropWhile (\<lambda>c. c \<noteq> CHR 0x0A) s"]
    length_dropWhile_le[of "\<lambda>c. c \<noteq> CHR 0x0A" s]
  by (auto simp: restline_def)

lemma dotted_more_le: "dotted_more s = (ws, s') \<Longrightarrow> length s' \<le> length s"
proof (induction s arbitrary: ws s' rule: dotted_more.induct)
  case (1 s)
  note IH = "1.IH" and prems = "1.prems"
  show ?case
  proof (cases "literal ''.'' s")
    case None
    with prems show ?thesis by (simp add: dotted_more.simps[of s])
  next
    case (Some r)
    obtain u s1 where r: "r = (u, s1)" by (cases r)
    from Some r have l1: "length s1 < length s" by (auto dest: literal_shorter)
    show ?thesis
    proof (cases "word s1")
      case None
      with Some r prems show ?thesis by (simp add: dotted_more.simps[of s])
    next
      case w: (Some r2)
      obtain w' s2 where r2: "r2 = (w', s2)" by (cases r2)
      from w r2 have l2: "length s2 < length s1" by (auto dest: word_shorter)
      obtain ws2 s3 where d: "dotted_more s2 = (ws2, s3)" by (cases "dotted_more s2")
      from IH[OF Some r[symmetric] w r2[symmetric] d] have "length s3 \<le> length s2" .
      moreover from prems Some r w r2 d have "s' = s3" by (simp add: dotted_more.simps[of s])
      ultimately show ?thesis using l1 l2 by simp
    qed
  qed
qed

lemma Comment_shorter: "Comment_grammar s = Some (st, s') \<Longrightarrow> length s' < length s"
  by (auto simp: Comment_grammar_def split: Option.bind_splits
      dest!: literal_shorter restline_le)

lemma LocaleStatement_shorter: "LocaleStatement_grammar s = Some (st, s') \<Longrightarrow> length s' < length s"
  by (auto simp: LocaleStatement_grammar_def split: Option.bind_splits
      dest!: literal_shorter word_shorter)

lemma Selector_shorter: "Selector_grammar s = Some (sel, s') \<Longrightarrow> length s' < length s"
  by (auto simp: Selector_grammar_def split: Option.bind_splits
      dest!: literal_shorter word_shorter)

lemma SelectorStatement_shorter:
  "SelectorStatement_grammar s = Some (st, s') \<Longrightarrow> length s' < length s"
  by (auto simp: SelectorStatement_grammar_def split: Option.bind_splits
      dest!: literal_shorter word_shorter Selector_shorter)

lemma DottedName_shorter: "DottedName_grammar s = Some (d, s') \<Longrightarrow> length s' < length s"
  by (auto simp: DottedName_grammar_def split: Option.bind_splits prod.splits
      dest!: word_shorter dotted_more_le)

lemma ExportStatement_shorter: "ExportStatement_grammar s = Some (st, s') \<Longrightarrow> length s' < length s"
  by (auto simp: ExportStatement_grammar_def split: Option.bind_splits
      dest!: literal_shorter word_shorter DottedName_shorter)

lemma statement_shorter: "statement s = Some (st, s') \<Longrightarrow> length s' < length s"
  by (auto simp: statement_def split: option.splits
      dest: Comment_shorter ExportStatement_shorter LocaleStatement_shorter
        SelectorStatement_shorter)

function maybe_some_statements :: "string \<Rightarrow> stmt list \<times> string" where
  "maybe_some_statements s =
     (case statement s of
        None \<Rightarrow> ([], s)
      | Some (st, s1) \<Rightarrow> (case maybe_some_statements s1 of (sts, s2) \<Rightarrow> (st # sts, s2)))"
  by pat_completeness auto
termination
  by (relation "measure length") (auto dest!: statement_shorter)

declare maybe_some_statements.simps [simp del]

text \<open>
  \<^verbatim>\<open>parse\<close> skips leading white space, parses, and raises the syntax error if text is
  left.  Text with a character outside ASCII is not modelled (\<^verbatim>\<open>\w\<close> and \<^verbatim>\<open>\s\<close> range
  over Unicode).
\<close>

definition pypeg2_parse :: "string \<Rightarrow> error + Script" where
  "pypeg2_parse text =
     (if \<not> list_all (\<lambda>c. (of_char c :: nat) < 128) text then Inl NotModelled
      else
        (case maybe_some_statements (skip text) of
           (ast, rest) \<Rightarrow> if rest = [] then Inr ast else Inl SyntaxError))"

subsection \<open>lxml: \<^verbatim>\<open>etree.fromstring(html)\<close>\<close>

text \<open>
  \<^verbatim>\<open>fromstring\<close> parses XML.  The model covers documents of elements, attributes and
  text in printable ASCII with spaces, tabs and line feeds, with an optional
  \<^verbatim>\<open><!DOCTYPE name>\<close> in front, and the references \<^verbatim>\<open>&lt; &gt; &amp; &quot; &apos; &#9;
  &#10; &#13;\<close>.  Carriage returns (XML normalises line ends), other references,
  comments, processing instructions, CDATA sections, qualified names and namespace
  declarations are answered with \<open>NotModelled\<close>, and so is what comes near the bounds of
  libxml2 without \<^verbatim>\<open>huge_tree\<close>: a text of more than 50000 characters (names are bounded
  by that length, texts by more) and elements nested deeper than 255 (the parser
  refuses a depth beyond 256).  The text is cut into tokens first, then the tree is
  built.
\<close>

datatype xtoken =
    StartTag string "(string \<times> string) list"
  | EmptyTag string "(string \<times> string) list"
  | EndTag string
  | Chars string

text \<open>\<open>contains pat s\<close>: the string \<open>pat\<close> occurs in \<open>s\<close>.\<close>

fun contains :: "string \<Rightarrow> string \<Rightarrow> bool" where
  "contains pat [] = (pat = [])"
| "contains pat (c # cs) = (prefix pat (c # cs) \<or> contains pat cs)"

text \<open>
  A reference, read after its \<^verbatim>\<open>&\<close>: the character it stands for and the text after
  it.
\<close>

definition reference :: "string \<Rightarrow> (char \<times> string) option" where
  "reference s =
     (if prefix ''lt;'' s then Some (CHR ''<'', drop 3 s)
      else if prefix ''gt;'' s then Some (CHR ''>'', drop 3 s)
      else if prefix ''amp;'' s then Some (CHR ''&'', drop 4 s)
      else if prefix ''quot;'' s then Some (CHR 0x22, drop 5 s)
      else if prefix ''apos;'' s then Some (CHR 0x27, drop 5 s)
      else if prefix ''#9;'' s then Some (CHR 0x09, drop 3 s)
      else if prefix ''#10;'' s then Some (CHR 0x0A, drop 4 s)
      else if prefix ''#13;'' s then Some (CHR 0x0D, drop 4 s)
      else None)"

lemma reference_le: "reference s = Some (c, rest) \<Longrightarrow> length rest \<le> length s"
  by (auto simp: reference_def split: if_splits)

text \<open>A text or an attribute value with its references replaced.\<close>

function unescape :: "string \<Rightarrow> error + string" where
  "unescape [] = Inr []"
| "unescape (c # cs) =
     (if c \<noteq> CHR ''&'' then
        (case unescape cs of Inl e \<Rightarrow> Inl e | Inr t \<Rightarrow> Inr (c # t))
      else
        (case reference cs of
           None \<Rightarrow> Inl NotModelled
         | Some (d, rest) \<Rightarrow>
             (case unescape rest of Inl e \<Rightarrow> Inl e | Inr t \<Rightarrow> Inr (d # t))))"
  by pat_completeness auto
termination
  by (relation "measure length") (auto dest: reference_le)

text \<open>
  A name and what follows it; a colon in or before the name would make it a qualified
  name.
\<close>

definition xml_name :: "string \<Rightarrow> error + string \<times> string" where
  "xml_name s =
     (let n = takeWhile name_char s; rest = dropWhile name_char s
      in if prefix '':'' rest then Inl NotModelled
         else if n = [] \<or> \<not> name_start_char (hd n) then Inl XMLSyntaxError
         else Inr (n, rest))"

text \<open>In an attribute value every white space character is read as a space.\<close>

definition attribute_value :: "string \<Rightarrow> string" where
  "attribute_value v = map (\<lambda>c. if xml_space c then CHR 0x20 else c) v"

text \<open>
  One attribute, its value in double or in single quotes.  An attribute \<^verbatim>\<open>xmlns\<close>
  declares a namespace.
\<close>

definition attribute :: "string \<Rightarrow> error + (string \<times> string) \<times> string" where
  "attribute s =
     (case xml_name s of
        Inl e \<Rightarrow> Inl e
      | Inr (n, s1) \<Rightarrow>
          if n = ''xmlns'' then Inl NotModelled
          else
          (case dropWhile xml_space s1 of
             [] \<Rightarrow> Inl XMLSyntaxError
           | eq # s2 \<Rightarrow>
               if eq \<noteq> CHR ''='' then Inl XMLSyntaxError
               else
                 (case dropWhile xml_space s2 of
                    [] \<Rightarrow> Inl XMLSyntaxError
                  | q # s3 \<Rightarrow>
                      if q \<noteq> CHR 0x22 \<and> q \<noteq> CHR 0x27 then Inl XMLSyntaxError
                      else
                        (let v = takeWhile (\<lambda>c. c \<noteq> q) s3
                         in case dropWhile (\<lambda>c. c \<noteq> q) s3 of
                              [] \<Rightarrow> Inl XMLSyntaxError
                            | q' # s4 \<Rightarrow>
                                if CHR ''<'' \<in> set v then Inl XMLSyntaxError
                                else
                                  (case unescape (attribute_value v) of
                                     Inl e \<Rightarrow> Inl e
                                   | Inr val \<Rightarrow> Inr ((n, val), s4))))))"

lemma xml_name_shorter: "xml_name s = Inr (n, rest) \<Longrightarrow> length rest < length s"
proof -
  assume a: "xml_name s = Inr (n, rest)"
  then have n: "takeWhile name_char s \<noteq> []" and r: "rest = dropWhile name_char s"
    by (auto simp: xml_name_def Let_def split: if_splits)
  have "length (takeWhile name_char s) + length (dropWhile name_char s) = length s"
    by (metis length_append takeWhile_dropWhile_id)
  with n r show ?thesis by (cases "takeWhile name_char s") auto
qed

lemma dropWhile_Cons_shorter: "dropWhile P s = c # s' \<Longrightarrow> length s' < length s"
  using length_dropWhile_le[of P s] by simp

lemma attribute_shorter: "attribute s = Inr (kv, rest) \<Longrightarrow> length rest < length s"
proof -
  assume a: "attribute s = Inr (kv, rest)"
  then obtain n s1 where n: "xml_name s = Inr (n, s1)"
    by (auto simp: attribute_def split: sum.splits)
  with a have x: "n \<noteq> ''xmlns''"
    by (auto simp: attribute_def split: if_splits)
  with a n obtain eq s2 where e: "dropWhile xml_space s1 = eq # s2"
    by (auto simp: attribute_def split: list.splits)
  with a n x obtain q s3 where q: "dropWhile xml_space s2 = q # s3"
    by (auto simp: attribute_def split: list.splits if_splits)
  with a n x e obtain q' where r: "dropWhile (\<lambda>c. c \<noteq> q) s3 = q' # rest"
    by (auto simp: attribute_def Let_def split: list.splits if_splits sum.splits)
  from xml_name_shorter[OF n] dropWhile_Cons_shorter[OF e] dropWhile_Cons_shorter[OF q]
    dropWhile_Cons_shorter[OF r]
  show ?thesis by simp
qed

text \<open>
  The attributes of a start tag up to its \<^verbatim>\<open>>\<close> or \<^verbatim>\<open>/>\<close>: white space comes before
  every attribute, and no name comes twice.  The result tells whether the tag closed
  itself.
\<close>

function attributes :: "string \<Rightarrow> error + (string \<times> string) list \<times> bool \<times> string" where
  "attributes s =
     (case dropWhile xml_space s of
        [] \<Rightarrow> Inl XMLSyntaxError
      | c # cs \<Rightarrow>
          if c = CHR ''>'' then Inr ([], False, cs)
          else if c = CHR ''/'' then
            (if prefix ''>'' cs then Inr ([], True, drop 1 cs) else Inl XMLSyntaxError)
          else if dropWhile xml_space s = s then Inl XMLSyntaxError
          else
            (case attribute (c # cs) of
               Inl e \<Rightarrow> Inl e
             | Inr (kv, s1) \<Rightarrow>
                 (case attributes s1 of
                    Inl e \<Rightarrow> Inl e
                  | Inr (kvs, selfclose, rest) \<Rightarrow>
                      if fst kv \<in> fst ` set kvs then Inl XMLSyntaxError
                      else Inr (kv # kvs, selfclose, rest))))"
  by pat_completeness auto
termination
proof (relation "measure length")
  show "wf (measure length)" by simp
next
  fix s c cs x kv s1
  assume d: "dropWhile xml_space s = c # cs" and a: "attribute (c # cs) = Inr x"
    and x: "(kv, s1) = x"
  from a x attribute_shorter[of "c # cs" kv s1] have "length s1 < length (c # cs)" by simp
  moreover from d length_dropWhile_le[of xml_space s] have "length (c # cs) \<le> length s" by simp
  ultimately show "(s1, s) \<in> measure length" by simp
qed

declare attributes.simps [simp del]

lemma attributes_shorter:
  "attributes s = Inr (kvs, selfclose, rest) \<Longrightarrow> length rest < length s"
proof (induction s arbitrary: kvs selfclose rest rule: attributes.induct)
  case (1 s)
  note IH = "1.IH" and prems = "1.prems"
  from prems obtain c cs where d: "dropWhile xml_space s = c # cs"
    by (auto simp: attributes.simps[of s] split: list.splits)
  from d length_dropWhile_le[of xml_space s] have le: "length (c # cs) \<le> length s" by simp
  consider "c = CHR ''>''" | "c = CHR ''/''" | "c \<noteq> CHR ''>''" "c \<noteq> CHR ''/''" by blast
  then show ?case
  proof cases
    case 1
    with prems d le show ?thesis by (auto simp: attributes.simps[of s])
  next
    case 2
    with prems d le show ?thesis
      by (auto simp: attributes.simps[of s] split: if_splits)
  next
    case 3
    with prems d obtain kv s1 kvs' where ns: "dropWhile xml_space s \<noteq> s"
      and a: "attribute (c # cs) = Inr (kv, s1)"
      and r: "attributes s1 = Inr (kvs', selfclose, rest)"
      by (auto simp: attributes.simps[of s] split: if_splits sum.splits)
    from IH[OF d 3(1) 3(2) ns a refl r] have "length rest < length s1" .
    with attribute_shorter[OF a] le show ?thesis by simp
  qed
qed

text \<open>The next token of a text that is not at its end.\<close>

definition next_token :: "string \<Rightarrow> error + xtoken \<times> string" where
  "next_token s =
     (if \<not> prefix ''<'' s then
        Inr (Chars (takeWhile (\<lambda>c. c \<noteq> CHR ''<'') s), dropWhile (\<lambda>c. c \<noteq> CHR ''<'') s)
      else if prefix ''<!'' s \<or> prefix ''<?'' s then Inl NotModelled
      else if prefix ''</'' s then
        (case xml_name (drop 2 s) of
           Inl e \<Rightarrow> Inl e
         | Inr (n, s1) \<Rightarrow>
             (case dropWhile xml_space s1 of
                [] \<Rightarrow> Inl XMLSyntaxError
              | c # s2 \<Rightarrow> if c = CHR ''>'' then Inr (EndTag n, s2) else Inl XMLSyntaxError))
      else
        (case xml_name (drop 1 s) of
           Inl e \<Rightarrow> Inl e
         | Inr (n, s1) \<Rightarrow>
             (case attributes s1 of
                Inl e \<Rightarrow> Inl e
              | Inr (kvs, selfclose, s2) \<Rightarrow>
                  Inr (if selfclose then EmptyTag n kvs else StartTag n kvs, s2))))"

lemma next_token_shorter:
  assumes "next_token s = Inr (t, rest)" and "s \<noteq> []"
  shows "length rest < length s"
proof (cases "prefix ''<'' s")
  case False
  with assms(2) obtain c cs where s: "s = c # cs" and c: "c \<noteq> CHR ''<''" by (cases s) auto
  from False assms(1) have "rest = dropWhile (\<lambda>c. c \<noteq> CHR ''<'') s"
    by (simp add: next_token_def)
  with s c length_dropWhile_le[of "\<lambda>c. c \<noteq> CHR ''<''" cs] show ?thesis by simp
next
  case True
  show ?thesis
  proof (cases "prefix ''</'' s")
    case t: True
    with True assms(1) obtain n s1 c where n: "xml_name (drop 2 s) = Inr (n, s1)"
      and d: "dropWhile xml_space s1 = c # rest"
      by (auto simp: next_token_def split: if_splits sum.splits list.splits)
    from xml_name_shorter[OF n] dropWhile_Cons_shorter[OF d] show ?thesis by simp
  next
    case f: False
    with True assms(1) obtain n s1 kvs selfclose where n: "xml_name (drop 1 s) = Inr (n, s1)"
      and a: "attributes s1 = Inr (kvs, selfclose, rest)"
      by (auto simp: next_token_def split: if_splits sum.splits)
    from xml_name_shorter[OF n] attributes_shorter[OF a] show ?thesis by simp
  qed
qed

function tokens :: "string \<Rightarrow> error + xtoken list" where
  "tokens s =
     (if s = [] then Inr []
      else
        (case next_token s of
           Inl e \<Rightarrow> Inl e
         | Inr (t, rest) \<Rightarrow>
             (case tokens rest of
                Inl e \<Rightarrow> Inl e
              | Inr ts \<Rightarrow> Inr (t # ts))))"
  by pat_completeness auto
termination
  by (relation "measure length") (auto dest: next_token_shorter)

declare tokens.simps [simp del]

text \<open>
  Building the tree.  A frame is an element whose end tag has not come yet: its tag,
  its attributes, its text, and its children so far, the last one first.  Text goes to
  the text of the open element while it has no child, and to the tail of its last
  child afterwards, with its references replaced; \<^verbatim>\<open>]]>\<close> may not stand in a text.
  Outside the root element only white space may stand.
\<close>

type_synonym frame = "string \<times> (string \<times> string) list \<times> string \<times> element list"

fun add_text :: "string \<Rightarrow> frame \<Rightarrow> frame" where
  "add_text t (n, kvs, x, []) = (n, kvs, x @ t, [])"
| "add_text t (n, kvs, x, Element ct ckvs cx ccs cta # kids) =
     (n, kvs, x, Element ct ckvs cx ccs (cta @ t) # kids)"

fun add_child :: "element \<Rightarrow> frame \<Rightarrow> frame" where
  "add_child e (n, kvs, x, kids) = (n, kvs, x, e # kids)"

fun close_frame :: "frame \<Rightarrow> element" where
  "close_frame (n, kvs, x, kids) = Element n kvs x (rev kids) []"

text \<open>After the end tag of the root element only white space may follow.\<close>

fun finish :: "element \<Rightarrow> xtoken list \<Rightarrow> error + element" where
  "finish root [] = Inr root"
| "finish root (Chars t # ts) =
     (if list_all xml_space t then finish root ts else Inl XMLSyntaxError)"
| "finish root (t # ts) = Inl XMLSyntaxError"

fun build :: "frame list \<Rightarrow> xtoken list \<Rightarrow> error + element" where
  "build fs [] = Inl XMLSyntaxError"
| "build [] (Chars t # ts) = (if list_all xml_space t then build [] ts else Inl XMLSyntaxError)"
| "build [] (StartTag n kvs # ts) = build [(n, kvs, [], [])] ts"
| "build [] (EmptyTag n kvs # ts) = finish (Element n kvs [] [] []) ts"
| "build [] (EndTag n # ts) = Inl XMLSyntaxError"
| "build (f # fs) (Chars t # ts) =
     (if contains '']]>'' t then Inl NotModelled
      else (case unescape t of Inl e \<Rightarrow> Inl e | Inr x \<Rightarrow> build (add_text x f # fs) ts))"
| "build (f # fs) (StartTag n kvs # ts) = build ((n, kvs, [], []) # f # fs) ts"
| "build (f # fs) (EmptyTag n kvs # ts) = build (add_child (Element n kvs [] [] []) f # fs) ts"
| "build (f # fs) (EndTag n # ts) =
     (if n \<noteq> fst f then Inl XMLSyntaxError
      else
        (case fs of
           [] \<Rightarrow> finish (close_frame f) ts
         | g # gs \<Rightarrow> build (add_child (close_frame f) g # gs) ts))"

text \<open>The document type declaration, when the text starts with one.\<close>

definition doctype :: "string \<Rightarrow> error + string" where
  "doctype s =
     (if \<not> prefix ''<!'' s then Inr s
      else if \<not> prefix ''<!DOCTYPE'' s then Inl NotModelled
      else
        (let s1 = drop 9 s
         in if dropWhile xml_space s1 = s1 then Inl NotModelled
            else
              (case xml_name (dropWhile xml_space s1) of
                 Inl e \<Rightarrow> Inl NotModelled
               | Inr (n, s2) \<Rightarrow>
                   (case dropWhile xml_space s2 of
                      [] \<Rightarrow> Inl NotModelled
                    | c # s3 \<Rightarrow> if c = CHR ''>'' then Inr s3 else Inl NotModelled))))"

text \<open>The number of elements on the longest way down from an element.\<close>

fun depth :: "element \<Rightarrow> nat" where
  "depth (Element t ats x cs ta) = Suc (fold max (map depth cs) 0)"

text \<open>The document type declaration, the tokens, the tree.\<close>

definition parse_document :: "string \<Rightarrow> error + element" where
  "parse_document html =
     (if \<not> list_all ascii_char html then Inl NotModelled
      else
        (case doctype (dropWhile xml_space html) of
           Inl e \<Rightarrow> Inl e
         | Inr body \<Rightarrow>
             (case tokens body of
                Inl e \<Rightarrow> Inl e
              | Inr ts \<Rightarrow>
                  (case build [] ts of
                     Inl e \<Rightarrow> Inl e
                   | Inr root \<Rightarrow> if 255 < depth root then Inl NotModelled else Inr root))))"

definition lxml_fromstring :: "string \<Rightarrow> error + element" where
  "lxml_fromstring html = (if 50000 < length html then Inl NotModelled else parse_document html)"

text \<open>The libraries the notebook imports.\<close>

definition pylib :: library where
  "pylib = \<lparr>parse = pypeg2_parse, fromstring = lxml_fromstring\<rparr>"

section \<open>The notebook's data\<close>

text \<open>The document of cell 4 and the script of cell 5, character by character.\<close>

definition notebook_doc :: string where
  "notebook_doc = ''<!DOCTYPE html>
<html>
<body>
    <h1>A Heading</h1>
    <p>A paragraph. It contains <a href='/foo'>a link.</a></p>
    <ol>
        <li>Link <a href='/1.html'>one</a></li>
        <li>Link <a href='/2.html'>two</a></li>
        <li>Link <a href='/3.html'>three</a></li>
    </ol>
</body>
</html>''"

definition notebook_scraper :: string where
  \<open>notebook_scraper = ''
# You can define a locale used for parsing numbers and dates:
locale en_US

# The "selector" command defines a selection of HTML
# nodes.
selector paragraph = p -> a
selector list_items = li -> a

# The export command defines data elements that should
# be produced as the result of scraping.
export foo.paragraph = paragraph
export foo.list = list_items
''\<close>

text \<open>
  The dictionary that cell 6 printed:
  \<^verbatim>\<open>{'foo': {'paragraph': [b'<a href="/foo">a link.</a>'], 'list': [b'<a href="/1.html">one</a>',
  b'<a href="/2.html">two</a>', b'<a href="/3.html">three</a>']}}\<close>
\<close>

definition notebook_output :: pyvalue where
  \<open>notebook_output =
     PyDict [(''foo'', PyDict [
       (''paragraph'', PyList [''<a href="/foo">a link.</a>'']),
       (''list'', PyList [''<a href="/1.html">one</a>'', ''<a href="/2.html">two</a>'',
          ''<a href="/3.html">three</a>''])])]\<close>

text \<open>The script and the document of the specification's end-to-end example.\<close>

definition three_lines :: string where
  "three_lines = ''locale en_US
selector paragraph = p -> a
export foo.paragraph = paragraph''"

definition three_statements :: Script where
  "three_statements =
     [LocaleStatement ''en_US'',
      SelectorStatement ''paragraph'' \<lparr>parent = ''p'', child = ''a''\<rparr>,
      ExportStatement [''foo'', ''paragraph''] ''paragraph'']"

definition p_text :: string where
  "p_text = ''<p>A paragraph. It contains <a href='/foo'>a link.</a></p>''"

definition p_element :: element where
  "p_element =
     Element ''p'' [] ''A paragraph. It contains ''
       [Element ''a'' [(''href'', ''/foo'')] ''a link.'' [] []] []"

definition paragraph_tree :: pyvalue where
  \<open>paragraph_tree =
     PyDict [(''foo'', PyDict [(''paragraph'', PyList [''<a href="/foo">a link.</a>''])])]\<close>

text \<open>Scripts that export a selector no statement declares.\<close>

definition undeclared_script :: string where
  "undeclared_script = ''export out.v = missing''"

definition leaf_conflict_script :: string where
  "leaf_conflict_script = ''selector s = p -> a
export a = s
export a.b.c = missing''"

text \<open>A locale statement spread over two lines.\<close>

definition two_line_locale :: string where
  "two_line_locale = ''locale
en_US''"

text \<open>A locale statement and a line that is no statement.\<close>

definition bad_second_line :: string where
  "bad_second_line = ''locale en_US
fetch everything''"

text \<open>A comment and a statement; the first line of a script, with its line end.\<close>

definition commented_script :: string where
  "commented_script = ''# the locale
locale en_US''"

definition first_line :: string where
  "first_line = ''locale en_US
''"


text \<open>A document whose anchor is a grandchild of its paragraph.\<close>

definition nested_text :: string where
  "nested_text = ''<p><b><a/></b></p>''"

definition nested_element :: element where
  "nested_element =
     Element ''p'' [] [] [Element ''b'' [] [] [Element ''a'' [] [] [] []] []] []"

definition p_a :: Selector where
  "p_a = \<lparr>parent = ''p'', child = ''a''\<rparr>"

text \<open>A process in the C locale on a host that also knows \<^verbatim>\<open>en_US\<close>.\<close>

definition host :: process where
  "host = \<lparr>installed = [''C'', ''en_US''], lc_all = ''C'', stdout = []\<rparr>"

section \<open>Notions used in the statements\<close>

text \<open>The export dictionary of a run of the loop that ended without an exception.\<close>

fun exported :: "(error + locals) \<times> process \<Rightarrow> pyvalue option" where
  "exported (Inr st, pr) = Some (snd st)"
| "exported (Inl e, pr) = None"

text \<open>Every element of a document except the root, each with its parent, in document order.\<close>

fun family :: "element \<Rightarrow> (element \<times> element) list"
  and family_list :: "element \<Rightarrow> element list \<Rightarrow> (element \<times> element) list" where
  "family (Element t ats x cs ta) = family_list (Element t ats x cs ta) cs"
| "family_list p [] = []"
| "family_list p (c # cs) = (p, c) # family c @ family_list p cs"

definition child_of :: "string \<Rightarrow> string \<Rightarrow> element \<times> element \<Rightarrow> bool" where
  "child_of p c pc \<longleftrightarrow> tag (fst pc) = p \<and> tag (snd pc) = c"

text \<open>
  The selector as the specification words it: the nodes whose tag matches \<open>child\<close> and
  whose ancestor-or-self chain includes a node matching \<open>parent\<close>, in document order.
  \<open>inside\<close> tells whether an ancestor matched already.
\<close>

fun spec_select :: "bool \<Rightarrow> string \<Rightarrow> string \<Rightarrow> element \<Rightarrow> element list" where
  "spec_select inside P C (Element t ats x cs ta) =
     (if (inside \<or> t = P) \<and> t = C then [Element t ats x cs ta] else []) @
     concat (map (spec_select (inside \<or> t = P) P C) cs)"

text \<open>The position is one step below an element tagged \<open>P\<close> and its element is tagged \<open>C\<close>.\<close>

fun hit :: "string \<Rightarrow> string \<Rightarrow> element \<Rightarrow> nat list \<Rightarrow> bool" where
  "hit P C e [] = False"
| "hit P C e [i] = (i < length (children e) \<and> tag e = P \<and> tag (children e ! i) = C)"
| "hit P C e (i # j # q) = (i < length (children e) \<and> hit P C (children e ! i) (j # q))"

text \<open>The walk along a path meets a list, at its end or before.\<close>

fun leaf_on :: "string list \<Rightarrow> pyvalue \<Rightarrow> bool" where
  "leaf_on p (PyList xs) = True"
| "leaf_on [] (PyDict kvs) = False"
| "leaf_on (k # p) (PyDict kvs) = (case map_of kvs k of None \<Rightarrow> False | Some v \<Rightarrow> leaf_on p v)"

text \<open>Every list of the dictionary sits at one of the paths \<open>P\<close>.\<close>

definition leaves_within :: "DottedName set \<Rightarrow> pyvalue \<Rightarrow> bool" where
  "leaves_within P t \<longleftrightarrow> (\<forall>p xs. lookup_path p t = Some (PyList xs) \<longrightarrow> p \<in> P)"

text \<open>What a script declares, exports and sets.\<close>

fun exports_of :: "string \<Rightarrow> stmt \<Rightarrow> bool" where
  "exports_of a (ExportStatement dotted ref) = (ref = a)"
| "exports_of a s = False"

fun declares :: "string \<Rightarrow> stmt \<Rightarrow> bool" where
  "declares a (SelectorStatement n sel) = (n = a)"
| "declares a s = False"

fun export_paths :: "Script \<Rightarrow> DottedName list" where
  "export_paths [] = []"
| "export_paths (ExportStatement d ref # ss) = d # export_paths ss"
| "export_paths (s # ss) = export_paths ss"

fun locales_of :: "Script \<Rightarrow> string list" where
  "locales_of [] = []"
| "locales_of (LocaleStatement l # ss) = l # locales_of ss"
| "locales_of (s # ss) = locales_of ss"

text \<open>Two states of the locals that differ at most in the binding of the selector \<open>a\<close>.\<close>

definition same_but :: "string \<Rightarrow> locals \<Rightarrow> locals \<Rightarrow> bool" where
  "same_but a st1 st2 \<longleftrightarrow> snd st1 = snd st2 \<and> (\<forall>k. k \<noteq> a \<longrightarrow> fst st1 k = fst st2 k)"

fun same_out ::
  "string \<Rightarrow> (error + locals) \<times> process \<Rightarrow> (error + locals) \<times> process \<Rightarrow> bool" where
  "same_out a (Inl e, pr) (Inl e', pr') = (e = e' \<and> pr = pr')"
| "same_out a (Inr st, pr) (Inr st', pr') = (same_but a st st' \<and> pr = pr')"
| "same_out a (Inl e, pr) (Inr st', pr') = False"
| "same_out a (Inr st, pr) (Inl e', pr') = False"

text \<open>
  The characters of a text that are no white space, and the text of a statement
  without its white space: the keyword, the words and the operators.
\<close>

definition nonspace :: "string \<Rightarrow> string" where
  "nonspace s = filter (\<lambda>c. \<not> space_char c) s"

definition dotted_text :: "DottedName \<Rightarrow> string" where
  "dotted_text d = (case d of [] \<Rightarrow> [] | w # ws \<Rightarrow> w @ concat (map ((#) CHR ''.'') ws))"

fun unparse :: "stmt \<Rightarrow> string" where
  "unparse (Comment t) = ''#'' @ t"
| "unparse (ExportStatement d ref) = ''export'' @ dotted_text d @ ''='' @ ref"
| "unparse (LocaleStatement l) = ''locale'' @ l"
| "unparse (SelectorStatement n sel) = ''selector'' @ n @ ''='' @ parent sel @ ''->'' @ child sel"
| "unparse (OtherStatement s) = s"

text \<open>The element without its tail: what \<^verbatim>\<open>etree.tostring(e, with_tail=False)\<close> writes.\<close>

fun without_tail :: "element \<Rightarrow> element" where
  "without_tail (Element t ats x cs ta) = Element t ats x cs []"

text \<open>
  Some \<^verbatim>\<open>#\<close> of the text is followed by nothing but white space up to the end of its
  line.
\<close>

fun bare_hash :: "string \<Rightarrow> bool" where
  "bare_hash [] = False"
| "bare_hash (c # cs) =
     ((c = CHR ''#'' \<and> prefix [CHR 0x0A] (dropWhile (\<lambda>c. space_char c \<and> c \<noteq> CHR 0x0A) cs))
      \<or> bare_hash cs)"

section \<open>Notions used in the proofs\<close>



text \<open>What can follow a name in a tag, and a text that is empty or starts a tag.\<close>

definition after_name :: "string \<Rightarrow> bool" where
  "after_name s \<longleftrightarrow> s \<noteq> [] \<and> hd s \<in> set [CHR 0x20, CHR ''/'', CHR ''>'', CHR ''='']"


text \<open>
  A text that ends with a line end, and the text a parser is left with when more text
  follows: white space at the seam is skipped.
\<close>

definition nlt :: "string \<Rightarrow> bool" where
  "nlt r \<longleftrightarrow> r \<noteq> [] \<and> last r = CHR 0x0A"

definition cont :: "string \<Rightarrow> string \<Rightarrow> string" where
  "cont r t = (if r = [] then skip t else r @ t)"

section \<open>Lemmas\<close>

subsection \<open>Running a script in pieces; a binding that is shadowed\<close>

lemma exec_append:
  "exec doc (xs @ ys) st pr =
     (case exec doc xs st pr of
        (Inl e, pr') \<Rightarrow> (Inl e, pr')
      | (Inr st', pr') \<Rightarrow> exec doc ys st' pr')"
  by (induction xs arbitrary: st pr) (auto split: prod.splits sum.splits)

lemma exec_stmt_same_but:
  assumes "same_but a st1 st2" and "\<not> exports_of a s"
  shows "same_out a (exec_stmt doc s st1 pr) (exec_stmt doc s st2 pr)"
  using assms
  by (cases s) (auto simp: same_but_def export_branch_def split: sum.splits option.splits)

lemma exec_same_but:
  assumes "same_but a st1 st2" and "\<forall>s \<in> set mid. \<not> exports_of a s"
  shows "same_out a (exec doc mid st1 pr) (exec doc mid st2 pr)"
  using assms
proof (induction mid arbitrary: st1 st2 pr)
  case Nil
  then show ?case by simp
next
  case (Cons s mid)
  from Cons.prems have nx: "\<not> exports_of a s" and rest: "\<forall>s \<in> set mid. \<not> exports_of a s"
    by simp_all
  have step: "same_out a (exec_stmt doc s st1 pr) (exec_stmt doc s st2 pr)"
    by (rule exec_stmt_same_but[OF Cons.prems(1) nx])
  show ?case
  proof (cases "exec_stmt doc s st1 pr")
    case p1: (Pair r1 pr1)
    show ?thesis
    proof (cases "exec_stmt doc s st2 pr")
      case p2: (Pair r2 pr2)
      show ?thesis
      proof (cases r1)
        case (Inl e)
        with step p1 p2 show ?thesis by (cases r2) auto
      next
        case i1: (Inr st1')
        show ?thesis
        proof (cases r2)
          case (Inl e)
          with step p1 p2 i1 show ?thesis by simp
        next
          case i2: (Inr st2')
          from step p1 p2 i1 i2 have sb: "same_but a st1' st2'" and eq: "pr1 = pr2" by simp_all
          from Cons.IH[OF sb rest, of pr1] p1 p2 i1 i2 eq show ?thesis by simp
        qed
      qed
    qed
  qed
qed

lemma same_but_rebind:
  "same_but a st1 st2 \<Longrightarrow>
   exec_stmt doc (SelectorStatement a sel) st1 pr = exec_stmt doc (SelectorStatement a sel) st2 pr"
  by (cases st1, cases st2) (auto simp: same_but_def fun_eq_iff)

lemma exec_shadowed:
  assumes "\<forall>s \<in> set mid. \<not> exports_of a s"
  shows "exec doc (SelectorStatement a s1 # mid @ SelectorStatement a s2 # post) st pr
       = exec doc (mid @ SelectorStatement a s2 # post) st pr"
proof -
  let ?st1 = "((fst st)(a \<mapsto> s1), snd st)"
  have sb: "same_but a ?st1 st"
    by (simp add: same_but_def)
  have so: "same_out a (exec doc mid ?st1 pr) (exec doc mid st pr)"
    by (rule exec_same_but[OF sb assms])
  show ?thesis
  proof (cases "exec doc mid ?st1 pr")
    case p1: (Pair r1 pr1)
    show ?thesis
    proof (cases "exec doc mid st pr")
      case p2: (Pair r2 pr2)
      show ?thesis
      proof (cases r1)
        case (Inl e)
        with so p1 p2 show ?thesis by (cases r2) (auto simp: exec_append)
      next
        case i1: (Inr st1')
        show ?thesis
        proof (cases r2)
          case (Inl e)
          with so p1 p2 i1 show ?thesis by simp
        next
          case i2: (Inr st2')
          from so p1 p2 i1 i2 have sb': "same_but a st1' st2'" and eq: "pr1 = pr2" by simp_all
          from same_but_rebind[OF sb', of doc s2 pr1] p1 p2 i1 i2 eq show ?thesis
            by (simp add: exec_append)
        qed
      qed
    qed
  qed
qed

subsection \<open>The export dictionary: what a walk and an assignment leave as it was\<close>

lemma lookup_empty_dict: "lookup_path q (PyDict []) = (if q = [] then Some (PyDict []) else None)"
  by (cases q) simp_all

lemma descend_frame:
  "descend p t = Inr t' \<Longrightarrow> \<not> prefix q p \<Longrightarrow> lookup_path q t' = lookup_path q t"
proof (induction p arbitrary: t t' q)
  case Nil
  then show ?case by simp
next
  case (Cons name names)
  then obtain kvs where t: "t = PyDict kvs" by (cases t) auto
  from Cons.prems(2) obtain k q' where q: "q = k # q'" by (cases q) auto
  let ?old = "case map_of kvs name of None \<Rightarrow> PyDict [] | Some v \<Rightarrow> v"
  from Cons.prems(1) t obtain sub where sub: "descend names ?old = Inr sub"
    and t': "t' = PyDict (AList.update name sub kvs)"
    by (auto split: sum.splits)
  show ?case
  proof (cases "k = name")
    case True
    with Cons.prems(2) q have np: "\<not> prefix q' names" by simp
    from Cons.IH[OF sub np] have "lookup_path q' sub = lookup_path q' ?old" .
    moreover from np have "q' \<noteq> []" by auto
    ultimately show ?thesis using t t' q True
      by (auto simp: update_conv' lookup_empty_dict split: option.splits)
  next
    case False
    then show ?thesis using t t' q by (simp add: update_conv')
  qed
qed

lemma setitem_frame:
  "setitem_at p key v t = Inr t' \<Longrightarrow> \<not> prefix q (p @ [key]) \<Longrightarrow> \<not> prefix (p @ [key]) q \<Longrightarrow>
   lookup_path q t' = lookup_path q t"
proof (induction p arbitrary: t t' q)
  case Nil
  then obtain kvs where t: "t = PyDict kvs" by (cases t) auto
  from Nil.prems(2) obtain k q' where q: "q = k # q'" by (cases q) auto
  with Nil.prems(3) have "k \<noteq> key" by auto
  with Nil.prems(1) t q show ?case by (auto simp: update_conv')
next
  case (Cons name names)
  then obtain kvs where t: "t = PyDict kvs" by (cases t) auto
  from Cons.prems(2) obtain k q' where q: "q = k # q'" by (cases q) auto
  from Cons.prems(1) t obtain old sub where old: "map_of kvs name = Some old"
    and sub: "setitem_at names key v old = Inr sub"
    and t': "t' = PyDict (AList.update name sub kvs)"
    by (auto split: sum.splits option.splits)
  show ?case
  proof (cases "k = name")
    case True
    with Cons.prems(2,3) q have "\<not> prefix q' (names @ [key])" and "\<not> prefix (names @ [key]) q'" by simp_all
    from Cons.IH[OF sub this] show ?thesis using t t' q True old by (simp add: update_conv')
  next
    case False
    then show ?thesis using t t' q by (simp add: update_conv')
  qed
qed

lemma setitem_lookup:
  "setitem_at p key v t = Inr t' \<Longrightarrow> lookup_path (p @ [key]) t' = Some v"
proof (induction p arbitrary: t t')
  case Nil
  then show ?case by (cases t) (auto simp: update_conv')
next
  case (Cons name names)
  then show ?case by (cases t) (auto simp: update_conv' split: sum.splits option.splits)
qed

lemma lookup_leaf_on: "lookup_path p t = Some (PyList xs) \<Longrightarrow> leaf_on (p @ r) t"
proof (induction p arbitrary: t)
  case Nil
  then show ?case by simp
next
  case (Cons k p)
  then show ?case by (cases t) (auto split: option.splits)
qed

lemma descend_leaf_on: "descend n t = Inr t' \<Longrightarrow> leaf_on p t \<Longrightarrow> leaf_on p t'"
proof (induction n arbitrary: t t' p)
  case Nil
  then show ?case by simp
next
  case (Cons name names)
  then obtain kvs where t: "t = PyDict kvs" by (cases t) auto
  with Cons.prems(2) obtain k p' w where p: "p = k # p'" and w: "map_of kvs k = Some w" and lw: "leaf_on p' w"
    by (cases p) (auto split: option.splits)
  let ?old = "case map_of kvs name of None \<Rightarrow> PyDict [] | Some v \<Rightarrow> v"
  from Cons.prems(1) t obtain sub where sub: "descend names ?old = Inr sub"
    and t': "t' = PyDict (AList.update name sub kvs)"
    by (auto split: sum.splits)
  show ?case
  proof (cases "k = name")
    case True
    with w sub have "descend names w = Inr sub" by simp
    from Cons.IH[OF this lw] show ?thesis using t' p True by (simp add: update_conv')
  next
    case False
    then show ?thesis using t' p w lw by (simp add: update_conv')
  qed
qed

lemma setitem_leaf_on:
  "setitem_at n key (PyList xs) t = Inr t' \<Longrightarrow> leaf_on p t \<Longrightarrow> leaf_on p t'"
proof (induction n arbitrary: t t' p)
  case Nil
  then obtain kvs where t: "t = PyDict kvs" by (cases t) auto
  with Nil.prems(2) obtain k p' w where p: "p = k # p'" and w: "map_of kvs k = Some w" and lw: "leaf_on p' w"
    by (cases p) (auto split: option.splits)
  from Nil.prems(1) t p w lw show ?case by (auto simp: update_conv')
next
  case (Cons name names)
  then obtain kvs where t: "t = PyDict kvs" by (cases t) auto
  with Cons.prems(2) obtain k p' w where p: "p = k # p'" and w: "map_of kvs k = Some w" and lw: "leaf_on p' w"
    by (cases p) (auto split: option.splits)
  from Cons.prems(1) t obtain old sub where old: "map_of kvs name = Some old"
    and sub: "setitem_at names key (PyList xs) old = Inr sub"
    and t': "t' = PyDict (AList.update name sub kvs)"
    by (auto split: sum.splits option.splits)
  show ?case
  proof (cases "k = name")
    case True
    with w old have "w = old" by simp
    with Cons.IH[OF sub] lw have "leaf_on p' sub" by simp
    then show ?thesis using t' p True by (simp add: update_conv')
  next
    case False
    then show ?thesis using t' p w lw by (simp add: update_conv')
  qed
qed

lemma setitem_fails_below_leaf:
  "leaf_on p t \<Longrightarrow> prefix p n \<Longrightarrow> isl (setitem_at n key v t)"
proof (induction p arbitrary: t n)
  case Nil
  then show ?case by (cases t) auto
next
  case (Cons k p)
  show ?case
  proof (cases t)
    case (PyList xs)
    then show ?thesis by simp
  next
    case (PyDict kvs)
    from Cons.prems(2) obtain n' where n: "n = k # n'" and pn: "prefix p n'"
      by (cases n) auto
    from Cons.prems(1) PyDict obtain w where w: "map_of kvs k = Some w" and lw: "leaf_on p w"
      by (auto split: option.splits)
    from Cons.IH[OF lw pn] show ?thesis using PyDict n w
      by (auto split: sum.splits)
  qed
qed

subsection \<open>The export branch\<close>

lemma export_branch_Inr:
  assumes "export_branch doc d ref (sels, ex) = Inr st'"
  obtains ex1 sel hits leaf ex2 where "descend (butlast d) ex = Inr ex1" "sels ref = Some sel"
    "xpath doc sel = Inr hits" "tostring_each hits = Inr leaf" "d \<noteq> []"
    "setitem_at (butlast d) (last d) (PyList leaf) ex1 = Inr ex2" "st' = (sels, ex2)"
  using assms
  by (auto simp: export_branch_def split: sum.splits option.splits if_splits)

lemma export_branch_stores:
  assumes "export_branch doc d ref (sels, ex) = Inr (sels', ex')"
  shows "\<exists>sel hits leaf. sels ref = Some sel \<and> xpath doc sel = Inr hits \<and>
           tostring_each hits = Inr leaf \<and> lookup_path d ex' = Some (PyList leaf)"
proof -
  from assms obtain ex1 sel hits leaf ex2 where sel: "sels ref = Some sel"
    and hits: "xpath doc sel = Inr hits" and leaf: "tostring_each hits = Inr leaf"
    and d: "d \<noteq> []"
    and set: "setitem_at (butlast d) (last d) (PyList leaf) ex1 = Inr ex2"
    and st: "(sels', ex') = (sels, ex2)"
    by (rule export_branch_Inr)
  from setitem_lookup[OF set] d st have "lookup_path d ex' = Some (PyList leaf)"
    by simp
  with sel hits leaf show ?thesis by blast
qed

lemma export_branch_frame:
  assumes "export_branch doc d ref (sels, ex) = Inr (sels', ex')"
    and "\<not> prefix q d" and "\<not> prefix d q"
  shows "lookup_path q ex' = lookup_path q ex"
proof -
  from assms(1) obtain ex1 leaf ex2 where des: "descend (butlast d) ex = Inr ex1"
    and d: "d \<noteq> []"
    and set: "setitem_at (butlast d) (last d) (PyList leaf) ex1 = Inr ex2"
    and st: "(sels', ex') = (sels, ex2)"
    by (rule export_branch_Inr)
  from assms(2) have "\<not> prefix q (butlast d)"
    using prefix_order.trans prefixeq_butlast by blast
  from descend_frame[OF des this] have 1: "lookup_path q ex1 = lookup_path q ex" .
  from d have dd: "butlast d @ [last d] = d" by simp
  from setitem_frame[OF set] assms(2,3) dd have "lookup_path q ex2 = lookup_path q ex1" by simp
  with 1 st show ?thesis by simp
qed

lemma export_branch_leaf_on:
  assumes "export_branch doc d ref (sels, ex) = Inr (sels', ex')" and "leaf_on p ex"
  shows "leaf_on p ex'"
proof -
  from assms(1) obtain ex1 leaf ex2 where des: "descend (butlast d) ex = Inr ex1"
    and set: "setitem_at (butlast d) (last d) (PyList leaf) ex1 = Inr ex2"
    and st: "(sels', ex') = (sels, ex2)"
    by (rule export_branch_Inr)
  from setitem_leaf_on[OF set descend_leaf_on[OF des assms(2)]] st show ?thesis by simp
qed

lemma export_below_leaf_fails:
  assumes "leaf_on p ex" and "r \<noteq> []"
  shows "isl (export_branch doc (p @ r) ref (sels, ex))"
proof (cases "descend (butlast (p @ r)) ex")
  case (Inl e)
  then show ?thesis by (simp add: export_branch_def)
next
  case (Inr ex1)
  from assms(2) have pre: "prefix p (butlast (p @ r))" by (simp add: butlast_append)
  have fails: "isl (setitem_at (butlast (p @ r)) key v ex1)" for key v
    by (rule setitem_fails_below_leaf[OF descend_leaf_on[OF Inr assms(1)] pre])
  have "setitem_at (butlast (p @ r)) key v ex1 \<noteq> Inr b" for key v b
    using fails[of key v] by auto
  then show ?thesis using Inr
    by (auto simp: export_branch_def split: sum.splits option.splits)
qed

lemma exec_stmt_leaf_on:
  assumes "exec_stmt doc s (sels, ex) pr = (Inr (sels', ex'), pr')" and "leaf_on p ex"
  shows "leaf_on p ex'"
  using assms
  by (cases s) (auto split: if_splits dest: export_branch_leaf_on)

lemma exec_leaf_on:
  assumes "exec doc ss (sels, ex) pr = (Inr (sels', ex'), pr')" and "leaf_on p ex"
  shows "leaf_on p ex'"
  using assms
proof (induction ss arbitrary: sels ex pr)
  case Nil
  then show ?case by simp
next
  case (Cons s ss)
  from Cons.prems(1) obtain sels1 ex1 pr1 where
    s1: "exec_stmt doc s (sels, ex) pr = (Inr (sels1, ex1), pr1)"
    and rest: "exec doc ss (sels1, ex1) pr1 = (Inr (sels', ex'), pr')"
    by (auto split: prod.splits sum.splits)
  from Cons.IH[OF rest exec_stmt_leaf_on[OF s1 Cons.prems(2)]] show ?case .
qed

lemma exec_fails_cons: "isl (fst (exec_stmt doc s st pr)) \<Longrightarrow> isl (fst (exec doc (s # ss) st pr))"
  by (auto split: prod.splits sum.splits)

lemma leaf_then_longer_export_fails:
  assumes "r \<noteq> []"
  shows "isl (fst (exec doc (ExportStatement p n1 # ys @ ExportStatement (p @ r) n2 # zs) (sels, ex) pr))"
proof (cases "exec_stmt doc (ExportStatement p n1) (sels, ex) pr")
  case p1: (Pair r1 pr1)
  show ?thesis
  proof (cases r1)
    case (Inl e)
    with p1 show ?thesis by simp
  next
    case (Inr st1)
    obtain sels1 ex1 where st1: "st1 = (sels1, ex1)" by (cases st1)
    from p1 Inr st1 have eb: "export_branch doc p n1 (sels, ex) = Inr (sels1, ex1)" by simp
    from export_branch_stores[OF eb] obtain leaf where "lookup_path p ex1 = Some (PyList leaf)"
      by blast
    from lookup_leaf_on[OF this, of "[]"] have l1: "leaf_on p ex1" by simp
    show ?thesis
    proof (cases "exec doc ys (sels1, ex1) pr1")
      case p2: (Pair r2 pr2)
      show ?thesis
      proof (cases r2)
        case (Inl e)
        with p1 Inr st1 p2 show ?thesis by (simp add: exec_append)
      next
        case i2: (Inr st2)
        obtain sels2 ex2 where st2: "st2 = (sels2, ex2)" by (cases st2)
        from exec_leaf_on[OF _ l1] p2 i2 st2 have "leaf_on p ex2" by simp
        from export_below_leaf_fails[OF this assms, of doc n2 sels2]
        show ?thesis using p1 Inr st1 p2 i2 st2
          by (auto simp: exec_append split: sum.splits)
      qed
    qed
  qed
qed

subsection \<open>Where the lists of the dictionary sit\<close>

lemma lookup_in_list: "lookup_path p (PyList ys) = Some (PyList xs) \<Longrightarrow> p = []"
  by (cases p) simp_all

lemma descend_no_new_leaf:
  "descend n t = Inr t' \<Longrightarrow> lookup_path p t' = Some (PyList xs) \<Longrightarrow> lookup_path p t = Some (PyList xs)"
proof (induction n arbitrary: t t' p)
  case Nil
  then show ?case by simp
next
  case (Cons name names)
  then obtain kvs where t: "t = PyDict kvs" by (cases t) auto
  let ?old = "case map_of kvs name of None \<Rightarrow> PyDict [] | Some v \<Rightarrow> v"
  from Cons.prems(1) t obtain sub where sub: "descend names ?old = Inr sub"
    and t': "t' = PyDict (AList.update name sub kvs)"
    by (auto split: sum.splits)
  from Cons.prems(2) t' obtain k p' where p: "p = k # p'" by (cases p) auto
  show ?case
  proof (cases "k = name")
    case True
    with Cons.prems(2) t' p have "lookup_path p' sub = Some (PyList xs)" by (simp add: update_conv')
    from Cons.IH[OF sub this] have "lookup_path p' ?old = Some (PyList xs)" .
    then show ?thesis using t p True
      by (cases "map_of kvs name") (auto simp: lookup_empty_dict split: if_splits)
  next
    case False
    with Cons.prems(2) t t' p show ?thesis by (simp add: update_conv')
  qed
qed

lemma setitem_new_leaf:
  "setitem_at n key (PyList ys) t = Inr t' \<Longrightarrow> lookup_path p t' = Some (PyList xs) \<Longrightarrow>
   p = n @ [key] \<or> lookup_path p t = Some (PyList xs)"
proof (induction n arbitrary: t t' p)
  case Nil
  then obtain kvs where t: "t = PyDict kvs" by (cases t) auto
  with Nil.prems(1) have t': "t' = PyDict (AList.update key (PyList ys) kvs)" by simp
  from Nil.prems(2) t' obtain k p' where p: "p = k # p'" by (cases p) auto
  show ?case
  proof (cases "k = key")
    case True
    with Nil.prems(2) t' p have "lookup_path p' (PyList ys) = Some (PyList xs)" by (simp add: update_conv')
    then have "p' = []" by (rule lookup_in_list)
    with p True show ?thesis by simp
  next
    case False
    with Nil.prems(2) t t' p show ?thesis by (simp add: update_conv')
  qed
next
  case (Cons name names)
  then obtain kvs where t: "t = PyDict kvs" by (cases t) auto
  from Cons.prems(1) t obtain old sub where old: "map_of kvs name = Some old"
    and sub: "setitem_at names key (PyList ys) old = Inr sub"
    and t': "t' = PyDict (AList.update name sub kvs)"
    by (auto split: sum.splits option.splits)
  from Cons.prems(2) t' obtain k p' where p: "p = k # p'" by (cases p) auto
  show ?case
  proof (cases "k = name")
    case True
    with Cons.prems(2) t' p have "lookup_path p' sub = Some (PyList xs)" by (simp add: update_conv')
    from Cons.IH[OF sub this] show ?thesis using t p True old by auto
  next
    case False
    with Cons.prems(2) t t' p show ?thesis by (simp add: update_conv')
  qed
qed

lemma descend_error:
  "descend n t = Inl e \<Longrightarrow> \<exists>p xs. strict_prefix p n \<and> lookup_path p t = Some (PyList xs)"
proof (induction n arbitrary: t)
  case Nil
  then show ?case by simp
next
  case (Cons name names)
  show ?case
  proof (cases t)
    case (PyList xs)
    then have "strict_prefix [] (name # names) \<and> lookup_path [] t = Some (PyList xs)" by simp
    then show ?thesis by blast
  next
    case (PyDict kvs)
    let ?old = "case map_of kvs name of None \<Rightarrow> PyDict [] | Some v \<Rightarrow> v"
    from Cons.prems PyDict have "descend names ?old = Inl e" by (auto split: sum.splits)
    from Cons.IH[OF this] obtain p xs where sp: "strict_prefix p names"
      and lk: "lookup_path p ?old = Some (PyList xs)" by blast
    from lk obtain v where v: "map_of kvs name = Some v" and lv: "lookup_path p v = Some (PyList xs)"
      by (cases "map_of kvs name") (auto simp: lookup_empty_dict split: if_splits)
    from sp v lv PyDict have "strict_prefix (name # p) (name # names) \<and> lookup_path (name # p) t = Some (PyList xs)"
      by simp
    then show ?thesis by blast
  qed
qed

lemma setitem_TypeError:
  "setitem_at n key v t = Inl TypeError \<Longrightarrow> \<exists>p xs. prefix p n \<and> lookup_path p t = Some (PyList xs)"
proof (induction n arbitrary: t)
  case Nil
  then obtain xs where "t = PyList xs" by (cases t) auto
  then have "prefix [] ([]::string list) \<and> lookup_path [] t = Some (PyList xs)" by simp
  then show ?case by blast
next
  case (Cons name names)
  show ?case
  proof (cases t)
    case (PyList xs)
    then have "prefix [] (name # names) \<and> lookup_path [] t = Some (PyList xs)" by simp
    then show ?thesis by blast
  next
    case (PyDict kvs)
    from Cons.prems PyDict obtain old where old: "map_of kvs name = Some old"
      and f: "setitem_at names key v old = Inl TypeError"
      by (auto split: option.splits sum.splits)
    from Cons.IH[OF f] obtain p xs where "prefix p names" "lookup_path p old = Some (PyList xs)" by blast
    with old PyDict have "prefix (name # p) (name # names) \<and> lookup_path (name # p) t = Some (PyList xs)"
      by simp
    then show ?thesis by blast
  qed
qed

lemma xpath_error: "xpath doc sel \<noteq> Inl TypeError"
  by (simp add: xpath_def)

lemma tostring_each_error: "tostring_each hits \<noteq> Inl TypeError"
  by (induction hits) (auto simp: tostring_def split: sum.splits)

lemma prefix_butlast_strict:
  assumes "prefix p (butlast d)" and "d \<noteq> []"
  shows "strict_prefix p d"
proof -
  from assms(2) obtain b x where d: "d = b @ [x]" by (cases d rule: rev_cases) auto
  with assms(1) obtain r where "b = p @ r" by (auto simp: prefix_def)
  with d have "d = p @ r @ [x]" by simp
  then show ?thesis by (auto simp: strict_prefix_def prefix_def)
qed

lemma export_branch_not_TypeError:
  assumes "leaves_within P ex" and "\<forall>p \<in> P. \<not> strict_prefix p d"
  shows "export_branch doc d ref (sels, ex) \<noteq> Inl TypeError"
proof
  assume te: "export_branch doc d ref (sels, ex) = Inl TypeError"
  show False
  proof (cases "descend (butlast d) ex")
    case (Inl e)
    from descend_error[OF Inl] obtain p xs where sp: "strict_prefix p (butlast d)"
      and lk: "lookup_path p ex = Some (PyList xs)" by blast
    from lk assms(1) have "p \<in> P" by (auto simp: leaves_within_def)
    moreover from sp have "strict_prefix p d"
      using prefix_order.less_le_trans prefixeq_butlast by blast
    ultimately show False using assms(2) by blast
  next
    case (Inr ex1)
    with te obtain sel hits leaf where "sels ref = Some sel" "xpath doc sel = Inr hits"
      and d: "d \<noteq> []"
      and f: "setitem_at (butlast d) (last d) (PyList leaf) ex1 = Inl TypeError"
      using xpath_error[of doc] tostring_each_error
      by (auto simp: export_branch_def split: option.splits sum.splits if_splits)
    from setitem_TypeError[OF f] obtain p xs where pp: "prefix p (butlast d)"
      and lk: "lookup_path p ex1 = Some (PyList xs)" by blast
    from descend_no_new_leaf[OF Inr lk] assms(1) have "p \<in> P" by (auto simp: leaves_within_def)
    moreover from pp d have "strict_prefix p d"
      by (rule prefix_butlast_strict)
    ultimately show False using assms(2) by blast
  qed
qed

lemma export_branch_leaves:
  assumes "leaves_within P ex" and "export_branch doc d ref (sels, ex) = Inr (sels', ex')"
  shows "leaves_within (insert d P) ex'"
proof -
  from assms(2) obtain ex1 leaf ex2 where des: "descend (butlast d) ex = Inr ex1"
    and d: "d \<noteq> []"
    and set: "setitem_at (butlast d) (last d) (PyList leaf) ex1 = Inr ex2"
    and st: "(sels', ex') = (sels, ex2)"
    by (rule export_branch_Inr)
  show ?thesis
    unfolding leaves_within_def
  proof (intro allI impI)
    fix p xs assume "lookup_path p ex' = Some (PyList xs)"
    with st have "lookup_path p ex2 = Some (PyList xs)" by simp
    from setitem_new_leaf[OF set this] d have "p = d \<or> lookup_path p ex1 = Some (PyList xs)" by simp
    then show "p \<in> insert d P"
      using descend_no_new_leaf[OF des] assms(1) by (auto simp: leaves_within_def)
  qed
qed

lemma exec_no_TypeError:
  assumes "leaves_within P ex"
    and "\<forall>d \<in> set (export_paths ss). \<forall>p \<in> P \<union> set (export_paths ss). \<not> strict_prefix p d"
  shows "fst (exec doc ss (sels, ex) pr) \<noteq> Inl TypeError"
  using assms
proof (induction ss arbitrary: sels ex pr P)
  case Nil
  then show ?case by simp
next
  case (Cons s ss)
  show ?case
  proof (cases s)
    case (ExportStatement d ref)
    from Cons.prems(2) ExportStatement have nd: "\<forall>p \<in> P. \<not> strict_prefix p d" by simp
    show ?thesis
    proof (cases "export_branch doc d ref (sels, ex)")
      case (Inl e)
      with export_branch_not_TypeError[OF Cons.prems(1) nd, of doc ref sels] ExportStatement
      show ?thesis by simp
    next
      case (Inr st')
      obtain sels' ex' where st': "st' = (sels', ex')" by (cases st')
      from export_branch_leaves[OF Cons.prems(1)] Inr st' have lw: "leaves_within (insert d P) ex'"
        by simp
      from Cons.prems(2) ExportStatement
      have "\<forall>d' \<in> set (export_paths ss). \<forall>p \<in> insert d P \<union> set (export_paths ss). \<not> strict_prefix p d'"
        by auto
      from Cons.IH[OF lw this, of sels' pr] Inr st' ExportStatement show ?thesis by simp
    qed
  next
    case (LocaleStatement l)
    with Cons.prems(2) have "\<forall>d \<in> set (export_paths ss). \<forall>p \<in> P \<union> set (export_paths ss). \<not> strict_prefix p d"
      by simp
    from Cons.IH[OF Cons.prems(1) this] LocaleStatement show ?thesis by simp
  next
    case (Comment c)
    with Cons.prems(2) have "\<forall>d \<in> set (export_paths ss). \<forall>p \<in> P \<union> set (export_paths ss). \<not> strict_prefix p d"
      by simp
    from Cons.IH[OF Cons.prems(1) this] Comment show ?thesis by simp
  next
    case (SelectorStatement n sel)
    with Cons.prems(2) have "\<forall>d \<in> set (export_paths ss). \<forall>p \<in> P \<union> set (export_paths ss). \<not> strict_prefix p d"
      by simp
    from Cons.IH[OF Cons.prems(1) this] SelectorStatement show ?thesis by simp
  next
    case (OtherStatement x)
    with Cons.prems(2) have "\<forall>d \<in> set (export_paths ss). \<forall>p \<in> P \<union> set (export_paths ss). \<not> strict_prefix p d"
      by simp
    from Cons.IH[OF Cons.prems(1) this] OtherStatement show ?thesis by simp
  qed
qed

lemma leaves_within_empty: "leaves_within {} (PyDict [])"
  by (simp add: leaves_within_def lookup_empty_dict)

subsection \<open>The query selects children\<close>

lemma element_at_snoc:
  "element_at e (m @ [i]) =
     (case element_at e m of
        None \<Rightarrow> None
      | Some pe \<Rightarrow> if i < length (children pe) then Some (children pe ! i) else None)"
  by (induction m arbitrary: e) auto

lemma element_at_prefix: "element_at e (m @ r) \<noteq> None \<Longrightarrow> element_at e m \<noteq> None"
  by (induction m arbitrary: e) (auto split: if_splits)

lemma positions_valid:
  "q \<in> set (positions e) \<longleftrightarrow> element_at e q \<noteq> None"
  "q \<in> set (positions_list i cs) \<longleftrightarrow>
     (\<exists>j q'. q = (i + j) # q' \<and> j < length cs \<and> element_at (cs ! j) q' \<noteq> None)"
proof (induction e and i cs arbitrary: q and q rule: positions_positions_list.induct)
  case (1 t ats x cs ta)
  show ?case
  proof (cases q)
    case Nil
    then show ?thesis by simp
  next
    case (Cons k q')
    with 1[of q] show ?thesis by auto
  qed
next
  case (2 i)
  then show ?case by simp
next
  case (3 i c cs)
  show ?case
  proof
    assume "q \<in> set (positions_list i (c # cs))"
    then consider q' where "q = i # q'" "q' \<in> set (positions c)" | "q \<in> set (positions_list (Suc i) cs)"
      by auto
    then show "\<exists>j q'. q = (i + j) # q' \<and> j < length (c # cs) \<and> element_at ((c # cs) ! j) q' \<noteq> None"
    proof cases
      case 1
      with 3(1)[of q'] have "q = (i + 0) # q' \<and> 0 < length (c # cs) \<and> element_at ((c # cs) ! 0) q' \<noteq> None"
        by simp
      then show ?thesis by blast
    next
      case 2
      with 3(2)[of q] obtain j q' where "q = (Suc i + j) # q'" "j < length cs" "element_at (cs ! j) q' \<noteq> None"
        by blast
      then have "q = (i + Suc j) # q' \<and> Suc j < length (c # cs) \<and> element_at ((c # cs) ! Suc j) q' \<noteq> None"
        by simp
      then show ?thesis by blast
    qed
  next
    assume "\<exists>j q'. q = (i + j) # q' \<and> j < length (c # cs) \<and> element_at ((c # cs) ! j) q' \<noteq> None"
    then obtain j q' where q: "q = (i + j) # q'" and j: "j < length (c # cs)"
      and v: "element_at ((c # cs) ! j) q' \<noteq> None" by blast
    show "q \<in> set (positions_list i (c # cs))"
    proof (cases j)
      case 0
      with q v 3(1)[of q'] show ?thesis by simp
    next
      case (Suc j')
      with q j v have "\<exists>j q'. q = (Suc i + j) # q' \<and> j < length cs \<and> element_at (cs ! j) q' \<noteq> None"
        by auto
      with 3(2)[of q] show ?thesis by simp
    qed
  qed
qed

lemma in_step_child:
  "n \<in> set (step_child root N ctx) \<longleftrightarrow>
     name_test root N n \<and> (\<exists>c \<in> set ctx. n \<in> set (child_axis root c))"
  by (auto simp: step_child_def)

lemma step_parent_set:
  "set (step_child root P (descendant_or_self_root root)) =
     {ElementNode m | m pe. element_at root m = Some pe \<and> tag pe = P}"
proof (intro set_eqI iffI)
  fix n assume "n \<in> set (step_child root P (descendant_or_self_root root))"
  then obtain c where c: "c \<in> set (descendant_or_self_root root)" and n: "n \<in> set (child_axis root c)"
    and nt: "name_test root P n"
    by (auto simp: in_step_child)
  from nt obtain m pe where "n = ElementNode m" "element_at root m = Some pe" "tag pe = P"
    by (cases n) (auto split: option.splits)
  then show "n \<in> {ElementNode m | m pe. element_at root m = Some pe \<and> tag pe = P}" by blast
next
  fix n assume "n \<in> {ElementNode m | m pe. element_at root m = Some pe \<and> tag pe = P}"
  then obtain m pe where n: "n = ElementNode m" and at: "element_at root m = Some pe" and tg: "tag pe = P"
    by blast
  have "\<exists>c \<in> set (descendant_or_self_root root). n \<in> set (child_axis root c)"
  proof (cases m rule: rev_cases)
    case Nil
    with n have "n \<in> set (child_axis root DocumentNode)" by simp
    then show ?thesis by (auto simp: descendant_or_self_root_def)
  next
    case (snoc m' i)
    with at obtain ge where ge: "element_at root m' = Some ge" and i: "i < length (children ge)"
      by (auto simp: element_at_snoc split: option.splits if_splits)
    then have "ElementNode m' \<in> set (descendant_or_self_root root)"
      by (simp add: descendant_or_self_root_def positions_valid)
    moreover from ge i n snoc have "n \<in> set (child_axis root (ElementNode m'))" by simp
    ultimately show ?thesis by blast
  qed
  moreover from n at tg have "name_test root P n" by simp
  ultimately show "n \<in> set (step_child root P (descendant_or_self_root root))"
    by (subst in_step_child) blast
qed

lemma step_hits_set:
  "set (step_child root C (step_child root P (descendant_or_self_root root))) =
     {ElementNode (m @ [i]) | m i pe. element_at root m = Some pe \<and> tag pe = P \<and>
        i < length (children pe) \<and> tag (children pe ! i) = C}"
  (is "?L = ?R")
proof (intro set_eqI iffI)
  fix n assume "n \<in> ?L"
  then obtain c where c: "c \<in> set (step_child root P (descendant_or_self_root root))"
    and n: "n \<in> set (child_axis root c)" and nt: "name_test root C n"
    by (auto simp: in_step_child)
  from c obtain m pe where cm: "c = ElementNode m" and at: "element_at root m = Some pe" and tg: "tag pe = P"
    by (auto simp: step_parent_set)
  from n cm at obtain i where i: "i < length (children pe)" and ni: "n = ElementNode (m @ [i])"
    by auto
  from nt ni at i have "tag (children pe ! i) = C" by (simp add: element_at_snoc)
  with ni at tg i show "n \<in> ?R" by blast
next
  fix n assume "n \<in> ?R"
  then obtain m i pe where ni: "n = ElementNode (m @ [i])" and at: "element_at root m = Some pe"
    and tg: "tag pe = P" and i: "i < length (children pe)" and tc: "tag (children pe ! i) = C"
    by blast
  from at tg have "ElementNode m \<in> set (step_child root P (descendant_or_self_root root))"
    by (auto simp: step_parent_set)
  moreover from ni at i have "n \<in> set (child_axis root (ElementNode m))" by simp
  moreover from ni at i tc have "name_test root C n" by (simp add: element_at_snoc)
  ultimately show "n \<in> ?L" by (subst in_step_child) blast
qed

lemma hit_iff:
  "hit P C e q \<longleftrightarrow>
     (\<exists>m i pe. q = m @ [i] \<and> element_at e m = Some pe \<and> tag pe = P \<and>
        i < length (children pe) \<and> tag (children pe ! i) = C)"
proof (induction P C e q rule: hit.induct)
  case (1 P C e)
  then show ?case by simp
next
  case (2 P C e i)
  then show ?case by auto
next
  case (3 P C e i j q)
  show ?case
  proof
    assume "hit P C e (i # j # q)"
    then have i: "i < length (children e)" and h: "hit P C (children e ! i) (j # q)" by simp_all
    from h 3 obtain m k pe where "j # q = m @ [k]" "element_at (children e ! i) m = Some pe"
      "tag pe = P" "k < length (children pe)" "tag (children pe ! k) = C" by blast
    with i have "i # j # q = (i # m) @ [k] \<and> element_at e (i # m) = Some pe \<and> tag pe = P \<and>
        k < length (children pe) \<and> tag (children pe ! k) = C" by simp
    then show "\<exists>m i' pe. i # j # q = m @ [i'] \<and> element_at e m = Some pe \<and> tag pe = P \<and>
        i' < length (children pe) \<and> tag (children pe ! i') = C" by blast
  next
    assume "\<exists>m i' pe. i # j # q = m @ [i'] \<and> element_at e m = Some pe \<and> tag pe = P \<and>
        i' < length (children pe) \<and> tag (children pe ! i') = C"
    then obtain m k pe where eq: "i # j # q = m @ [k]" and at: "element_at e m = Some pe"
      and rest: "tag pe = P" "k < length (children pe)" "tag (children pe ! k) = C" by blast
    from eq obtain m' where m: "m = i # m'" and eq': "j # q = m' @ [k]"
      by (cases m) auto
    from at m have i: "i < length (children e)" and at': "element_at (children e ! i) m' = Some pe"
      by (auto split: if_splits)
    from eq' at' rest 3 have "hit P C (children e ! i) (j # q)" by blast
    with i show "hit P C e (i # j # q)" by simp
  qed
qed

lemma hits_filter:
  "filter (\<lambda>n. n \<in> set (step_child root C (step_child root P (descendant_or_self_root root))))
      (descendant_or_self_root root)
   = map ElementNode (filter (hit P C root) (positions root))"
proof -
  have "(ElementNode q \<in> set (step_child root C (step_child root P (descendant_or_self_root root))))
      = hit P C root q" for q
    unfolding step_hits_set hit_iff by auto
  moreover have "DocumentNode \<notin> set (step_child root C (step_child root P (descendant_or_self_root root)))"
    unfolding step_hits_set by auto
  ultimately show ?thesis
    by (simp add: descendant_or_self_root_def filter_map comp_def)
qed

lemma positions_list_nonempty: "q \<in> set (positions_list i cs) \<Longrightarrow> q \<noteq> []"
  by (auto simp: positions_valid)

lemma positions_split: "positions c = [] # positions_list 0 (children c)"
  by (cases c) simp

lemma hit_below:
  assumes "i < length (children p)" and "children p ! i = c"
  shows "filter (\<lambda>q. hit P C p (i # q)) (positions c) =
           (if tag p = P \<and> tag c = C then [[]] else []) @ filter (hit P C c) (positions c)"
proof -
  have "filter (\<lambda>q. hit P C p (i # q)) (positions_list 0 (children c))
      = filter (hit P C c) (positions_list 0 (children c))"
  proof (rule filter_cong[OF refl])
    fix q assume "q \<in> set (positions_list 0 (children c))"
    then have "q \<noteq> []" by (rule positions_list_nonempty)
    then obtain j q' where "q = j # q'" by (cases q) auto
    with assms show "hit P C p (i # q) = hit P C c q" by simp
  qed
  with assms show ?thesis by (simp add: positions_split)
qed

lemma hits_family:
  "concat (map (\<lambda>q. node_element e (ElementNode q)) (filter (hit P C e) (positions e)))
     = map snd (filter (child_of P C) (family e))"
  "drop i (children p) = cs \<Longrightarrow>
   concat (map (\<lambda>q. node_element p (ElementNode q)) (filter (hit P C p) (positions_list i cs)))
     = map snd (filter (child_of P C) (family_list p cs))"
proof (induction e and p cs arbitrary: and i rule: family_family_list.induct)
  case (1 t ats x cs ta)
  from 1[of 0] show ?case by simp
next
  case (2 p)
  then show ?case by simp
next
  case (3 p c cs)
  from 3(3) have i: "i < length (children p)"
    by (cases "i < length (children p)") auto
  from Cons_nth_drop_Suc[OF i] 3(3) have c: "children p ! i = c"
    and rest: "drop (Suc i) (children p) = cs"
    by simp_all
  have at: "node_element p (ElementNode (i # q)) = node_element c (ElementNode q)" for q
    using i c by simp
  have "concat (map (\<lambda>q. node_element p (ElementNode q))
            (filter (hit P C p) (map ((#) i) (positions c))))
      = concat (map (\<lambda>q. node_element c (ElementNode q)) (filter (\<lambda>q. hit P C p (i # q)) (positions c)))"
    using i c by (simp add: filter_map comp_def)
  also have "\<dots> = (if tag p = P \<and> tag c = C then [c] else [])
      @ concat (map (\<lambda>q. node_element c (ElementNode q)) (filter (hit P C c) (positions c)))"
    by (simp add: hit_below[OF i c])
  finally have head: "concat (map (\<lambda>q. node_element p (ElementNode q))
            (filter (hit P C p) (map ((#) i) (positions c))))
      = (if tag p = P \<and> tag c = C then [c] else []) @ map snd (filter (child_of P C) (family c))"
    using 3(1) by simp
  have "concat (map (\<lambda>q. node_element p (ElementNode q)) (filter (hit P C p) (positions_list i (c # cs))))
      = concat (map (\<lambda>q. node_element p (ElementNode q)) (filter (hit P C p) (map ((#) i) (positions c))))
        @ concat (map (\<lambda>q. node_element p (ElementNode q)) (filter (hit P C p) (positions_list (Suc i) cs)))"
    by simp
  also have "\<dots> = ((if tag p = P \<and> tag c = C then [c] else []) @ map snd (filter (child_of P C) (family c)))
        @ map snd (filter (child_of P C) (family_list p cs))"
    unfolding head 3(2)[OF rest] ..
  also have "\<dots> = map snd (filter (child_of P C) (family_list p (c # cs)))"
    by (simp add: child_of_def)
  finally show ?case .
qed

lemma xpath_path_family:
  "xpath_path root P C = map snd (filter (child_of P C) (family root))"
proof -
  have "xpath_path root P C
      = concat (map (node_element root) (map ElementNode (filter (hit P C root) (positions root))))"
    by (simp add: xpath_path_def Let_def hits_filter)
  also have "\<dots> = concat (map (\<lambda>q. node_element root (ElementNode q)) (filter (hit P C root) (positions root)))"
    by (simp add: comp_def)
  also have "\<dots> = map snd (filter (child_of P C) (family root))"
    by (rule hits_family(1))
  finally show ?thesis .
qed

subsection \<open>The locale, undeclared selectors, standard output\<close>

lemma exec_stmt_lc_all:
  "exec_stmt doc s st pr = (Inr st', pr') \<Longrightarrow>
   lc_all pr' = last (lc_all pr # locales_of [s]) \<and> installed pr' = installed pr"
  by (cases s) (auto split: if_splits)

lemma locales_of_Cons: "locales_of (s # ss) = locales_of [s] @ locales_of ss"
  by (cases s) simp_all

lemma exec_lc_all:
  "exec doc ss st pr = (Inr st', pr') \<Longrightarrow>
   lc_all pr' = last (lc_all pr # locales_of ss) \<and> installed pr' = installed pr"
proof (induction ss arbitrary: st pr)
  case Nil
  then show ?case by simp
next
  case (Cons s ss)
  from Cons.prems obtain st1 pr1 where s1: "exec_stmt doc s st pr = (Inr st1, pr1)"
    and rest: "exec doc ss st1 pr1 = (Inr st', pr')"
    by (auto split: prod.splits sum.splits)
  from exec_stmt_lc_all[OF s1] Cons.IH[OF rest] show ?case
    by (subst locales_of_Cons) (cases s; simp)
qed

lemma exec_stmt_undeclared:
  "exec_stmt doc s (sels, ex) pr = (Inr (sels', ex'), pr') \<Longrightarrow> \<not> declares ref s \<Longrightarrow> sels' ref = sels ref"
  by (cases s) (auto split: if_splits elim: export_branch_Inr)

lemma exec_undeclared:
  "exec doc ss (sels, ex) pr = (Inr (sels', ex'), pr') \<Longrightarrow> \<forall>s \<in> set ss. \<not> declares ref s \<Longrightarrow>
   sels' ref = sels ref"
proof (induction ss arbitrary: sels ex pr)
  case Nil
  then show ?case by simp
next
  case (Cons s ss)
  from Cons.prems(1) obtain sels1 ex1 pr1 where s1: "exec_stmt doc s (sels, ex) pr = (Inr (sels1, ex1), pr1)"
    and rest: "exec doc ss (sels1, ex1) pr1 = (Inr (sels', ex'), pr')"
    by (auto split: prod.splits sum.splits)
  from exec_stmt_undeclared[OF s1] Cons.prems(2) have "sels1 ref = sels ref" by simp
  with Cons.IH[OF rest] Cons.prems(2) show ?case by simp
qed

text \<open>The statements of the loop never print the export dictionary.\<close>

lemma exec_stmt_stdout:
  "exec_stmt doc s st pr = (r, pr') \<Longrightarrow> PrintExport t \<in> set (stdout pr') \<Longrightarrow> PrintExport t \<in> set (stdout pr)"
  by (cases s) (auto split: if_splits)

lemma exec_stdout:
  "exec doc ss st pr = (r, pr') \<Longrightarrow> PrintExport t \<in> set (stdout pr') \<Longrightarrow> PrintExport t \<in> set (stdout pr)"
proof (induction ss arbitrary: st pr)
  case Nil
  then show ?case by simp
next
  case (Cons s ss)
  obtain r1 pr1 where s1: "exec_stmt doc s st pr = (r1, pr1)" by (cases "exec_stmt doc s st pr")
  show ?case
  proof (cases r1)
    case (Inl e)
    with s1 Cons.prems have "pr' = pr1" by simp
    with exec_stmt_stdout[OF s1] Cons.prems(2) show ?thesis by simp
  next
    case (Inr st1)
    with s1 Cons.prems(1) have "exec doc ss st1 pr1 = (r, pr')" by simp
    from Cons.IH[OF this Cons.prems(2)] exec_stmt_stdout[OF s1] show ?thesis by simp
  qed
qed

lemma export_undeclared_fails:
  assumes "\<forall>s \<in> set pre. \<not> declares ref s"
  shows "isl (fst (exec doc (pre @ ExportStatement dotted ref # post) (Map.empty, ex0) pr))"
proof (cases "exec doc pre (Map.empty, ex0) pr")
  case (Pair r1 pr1)
  show ?thesis
  proof (cases r1)
    case (Inl e)
    with Pair show ?thesis by (simp add: exec_append)
  next
    case (Inr st1)
    obtain sels ex where st1: "st1 = (sels, ex)" by (cases st1)
    from exec_undeclared[OF _ assms] Pair Inr st1 have "sels ref = None" by simp
    then have "isl (export_branch doc dotted ref (sels, ex))"
      by (auto simp: export_branch_def split: sum.splits)
    with Pair Inr st1 show ?thesis by (auto simp: exec_append split: sum.splits)
  qed
qed

lemma export_undeclared_KeyError:
  assumes "\<forall>s \<in> set pre. \<not> declares ref s"
    and "exec doc pre (Map.empty, ex0) pr = (Inr (sels, ex), pr1)"
    and "descend (butlast dotted) ex = Inr ex1"
  shows "exec doc (pre @ ExportStatement dotted ref # post) (Map.empty, ex0) pr = (Inl (KeyError ref), pr1)"
proof -
  from exec_undeclared[OF assms(2,1)] have "sels ref = None" by simp
  with assms(3) have "export_branch doc dotted ref (sels, ex) = Inl (KeyError ref)"
    by (simp add: export_branch_def)
  with assms(2) show ?thesis by (simp add: exec_append)
qed

lemma exec_append_Inr:
  assumes "exec doc (xs @ ys) st pr = (Inr st', pr')"
  obtains st1 pr1 where "exec doc xs st pr = (Inr st1, pr1)" and "exec doc ys st1 pr1 = (Inr st', pr')"
  using assms by (auto simp: exec_append split: prod.splits sum.splits)

lemma export_after_declaration:
  assumes run: "exec doc (pre @ SelectorStatement a s2 # post @ [ExportStatement d a]) st pr
                  = (Inr (sels', ex'), pr')"
    and post: "\<forall>s \<in> set post. \<not> declares a s"
  shows "\<exists>hits leaf. xpath doc s2 = Inr hits \<and> tostring_each hits = Inr leaf \<and>
           lookup_path d ex' = Some (PyList leaf)"
proof -
  have split: "pre @ SelectorStatement a s2 # post @ [ExportStatement d a]
      = pre @ (SelectorStatement a s2 # post) @ [ExportStatement d a]"
    by simp
  from run obtain st1 pr1 where "exec doc pre st pr = (Inr st1, pr1)"
    and rest: "exec doc ((SelectorStatement a s2 # post) @ [ExportStatement d a]) st1 pr1
        = (Inr (sels', ex'), pr')"
    unfolding split by (rule exec_append_Inr)
  from rest obtain st3 pr3 where p3: "exec doc (SelectorStatement a s2 # post) st1 pr1 = (Inr st3, pr3)"
    and last: "exec doc [ExportStatement d a] st3 pr3 = (Inr (sels', ex'), pr')"
    by (rule exec_append_Inr)
  obtain sels3 ex3 where st3: "st3 = (sels3, ex3)" by (cases st3)
  from p3 st3 have "exec doc post ((fst st1)(a \<mapsto> s2), snd st1) pr1 = (Inr (sels3, ex3), pr3)"
    by simp
  from exec_undeclared[OF this post] have a: "sels3 a = Some s2" by simp
  from last st3 have "export_branch doc d a (sels3, ex3) = Inr (sels', ex')"
    by (auto split: sum.splits)
  from export_branch_stores[OF this] a show ?thesis by auto
qed

lemma exported_SomeD: "exported x = Some ex \<Longrightarrow> \<exists>sels pr. x = (Inr (sels, ex), pr)"
  by (cases x rule: exported.cases) auto

subsection \<open>What the parser consumes\<close>

lemma nonspace_append: "nonspace (a @ b) = nonspace a @ nonspace b"
  by (simp add: nonspace_def)

lemma nonspace_Cons:
  "nonspace (c # s) = (if space_char c then nonspace s else c # nonspace s)"
  by (simp add: nonspace_def)

lemma nonspace_Nil: "nonspace [] = []"
  by (simp add: nonspace_def)

lemmas nonspace_rules = nonspace_append nonspace_Cons nonspace_Nil space_char_def

lemma nonspace_skip: "nonspace (skip s) = nonspace s"
  by (induction s) (auto simp: nonspace_def skip_def)

lemma literal_ns: "literal l s = Some (u, s') \<Longrightarrow> nonspace s = nonspace l @ nonspace s'"
  by (auto simp: literal_def prefix_def nonspace_append nonspace_skip split: if_splits)

lemma word_ns: "word s = Some (w, s') \<Longrightarrow> nonspace s = nonspace w @ nonspace s'"
proof -
  assume "word s = Some (w, s')"
  then have w: "w = takeWhile word_char s" and s': "s' = skip (dropWhile word_char s)"
    by (auto simp: word_def Let_def split: if_splits)
  have "nonspace s = nonspace (takeWhile word_char s @ dropWhile word_char s)" by simp
  also have "\<dots> = nonspace w @ nonspace s'"
    unfolding nonspace_append w s' nonspace_skip ..
  finally show ?thesis .
qed

lemma restline_ns: "restline s = Some (t, s') \<Longrightarrow> nonspace s = nonspace t @ nonspace s'"
proof -
  let ?P = "\<lambda>c. c \<noteq> CHR 0x0A"
  assume "restline s = Some (t, s')"
  then have t: "t = takeWhile ?P s" and s': "s' = skip (dropWhile ?P s)"
    by (auto simp: restline_def)
  have "nonspace s = nonspace (takeWhile ?P s @ dropWhile ?P s)" by simp
  also have "\<dots> = nonspace t @ nonspace s'"
    unfolding nonspace_append t s' nonspace_skip ..
  finally show ?thesis .
qed

lemma dotted_more_ns:
  "dotted_more s = (ws, s') \<Longrightarrow> nonspace s = nonspace (concat (map ((#) CHR ''.'') ws)) @ nonspace s'"
proof (induction s arbitrary: ws s' rule: dotted_more.induct)
  case (1 s)
  note IH = "1.IH" and prems = "1.prems"
  show ?case
  proof (cases "literal ''.'' s")
    case None
    with prems show ?thesis by (simp add: dotted_more.simps[of s] nonspace_def)
  next
    case (Some r)
    obtain u s1 where r: "r = (u, s1)" by (cases r)
    show ?thesis
    proof (cases "word s1")
      case None
      with Some r prems show ?thesis by (simp add: dotted_more.simps[of s] nonspace_def)
    next
      case w: (Some r2)
      obtain w' s2 where r2: "r2 = (w', s2)" by (cases r2)
      obtain ws2 s3 where d: "dotted_more s2 = (ws2, s3)" by (cases "dotted_more s2")
      from prems Some r w r2 d have ws: "ws = w' # ws2" and s': "s' = s3"
        by (simp_all add: dotted_more.simps[of s])
      from IH[OF Some r[symmetric] w r2[symmetric] d]
      have "nonspace s2 = nonspace (concat (map ((#) CHR ''.'') ws2)) @ nonspace s3" .
      with literal_ns[of "''.''" s u s1] word_ns[of s1 w' s2] Some r w r2 ws s'
      show ?thesis by (simp add: nonspace_rules)
    qed
  qed
qed

lemma Comment_ns:
  "Comment_grammar s = Some (st, s') \<Longrightarrow> nonspace s = nonspace (unparse st) @ nonspace s'"
  by (auto simp: Comment_grammar_def split: Option.bind_splits dest!: literal_ns restline_ns)
    (simp_all add: nonspace_rules)

lemma LocaleStatement_ns:
  "LocaleStatement_grammar s = Some (st, s') \<Longrightarrow> nonspace s = nonspace (unparse st) @ nonspace s'"
  by (auto simp: LocaleStatement_grammar_def split: Option.bind_splits dest!: literal_ns word_ns)
    (simp_all add: nonspace_rules)

lemma Selector_ns:
  "Selector_grammar s = Some (sel, s') \<Longrightarrow>
   nonspace s = nonspace (parent sel @ ''->'' @ child sel) @ nonspace s'"
  by (auto simp: Selector_grammar_def split: Option.bind_splits dest!: literal_ns word_ns)
    (simp_all add: nonspace_rules)

lemma SelectorStatement_ns:
  "SelectorStatement_grammar s = Some (st, s') \<Longrightarrow> nonspace s = nonspace (unparse st) @ nonspace s'"
  by (auto simp: SelectorStatement_grammar_def split: Option.bind_splits dest!: literal_ns word_ns Selector_ns)
    (simp_all add: nonspace_rules)

lemma DottedName_ns:
  "DottedName_grammar s = Some (d, s') \<Longrightarrow> nonspace s = nonspace (dotted_text d) @ nonspace s'"
  by (auto simp: DottedName_grammar_def dotted_text_def nonspace_append
      split: Option.bind_splits prod.splits dest!: word_ns dotted_more_ns)

lemma ExportStatement_ns:
  "ExportStatement_grammar s = Some (st, s') \<Longrightarrow> nonspace s = nonspace (unparse st) @ nonspace s'"
  by (auto simp: ExportStatement_grammar_def split: Option.bind_splits dest!: literal_ns word_ns DottedName_ns)
    (simp_all add: nonspace_rules)

lemma statement_ns:
  "statement s = Some (st, s') \<Longrightarrow> nonspace s = nonspace (unparse st) @ nonspace s'"
  by (auto simp: statement_def split: option.splits
      dest: Comment_ns ExportStatement_ns LocaleStatement_ns SelectorStatement_ns)

lemma maybe_some_statements_ns:
  "maybe_some_statements s = (sts, s') \<Longrightarrow>
   nonspace s = nonspace (concat (map unparse sts)) @ nonspace s'"
proof (induction s arbitrary: sts s' rule: maybe_some_statements.induct)
  case (1 s)
  note IH = "1.IH" and prems = "1.prems"
  show ?case
  proof (cases "statement s")
    case None
    with prems show ?thesis by (simp add: maybe_some_statements.simps[of s] nonspace_def)
  next
    case (Some r)
    obtain st s1 where r: "r = (st, s1)" by (cases r)
    obtain sts2 s2 where m: "maybe_some_statements s1 = (sts2, s2)"
      by (cases "maybe_some_statements s1")
    from prems Some r m have "sts = st # sts2" "s' = s2"
      by (simp_all add: maybe_some_statements.simps[of s])
    with IH[OF Some r[symmetric] m] statement_ns[of s st s1] Some r
    show ?thesis by (simp add: nonspace_append)
  qed
qed

lemma maybe_some_statements_stops:
  "maybe_some_statements s = (ast, rest) \<Longrightarrow> statement rest = None"
proof (induction s arbitrary: ast rest rule: maybe_some_statements.induct)
  case (1 s)
  note IH = "1.IH" and prems = "1.prems"
  show ?case
  proof (cases "statement s")
    case None
    with prems show ?thesis by (simp add: maybe_some_statements.simps[of s])
  next
    case (Some r)
    obtain st s1 where r: "r = (st, s1)" by (cases r)
    obtain sts s2 where m: "maybe_some_statements s1 = (sts, s2)"
      by (cases "maybe_some_statements s1")
    from prems Some r m have "rest = s2" by (simp add: maybe_some_statements.simps[of s])
    with IH[OF Some r[symmetric] m] show ?thesis by simp
  qed
qed

subsection \<open>Parsing a text in two parts\<close>

lemma skip_append: "skip (y @ t) = cont (skip y) t"
  by (auto simp: skip_def cont_def dropWhile_append dropWhile_eq_Nil_conv)

lemma skip_suffix: "suffix (skip s) s"
  by (simp add: skip_def suffix_dropWhile)

lemma nlt_suffix: "nlt r \<Longrightarrow> suffix r' r \<Longrightarrow> r' \<noteq> [] \<Longrightarrow> nlt r'"
  by (auto simp: nlt_def suffix_def)

lemma nlt_has_newline: "nlt r \<Longrightarrow> CHR 0x0A \<in> set r"
  by (auto simp: nlt_def dest: last_in_set)

lemma bare_hash_append: "bare_hash r \<Longrightarrow> bare_hash (a @ r)"
  by (induction a) auto

lemma bare_hash_suffix: "suffix r' r \<Longrightarrow> bare_hash r' \<Longrightarrow> bare_hash r"
  by (auto simp: suffix_def bare_hash_append)

subsection \<open>Parsing a text in two parts: terminals\<close>

lemma literal_ext:
  "literal l r = Some (u, r') \<Longrightarrow> literal l (r @ t) = Some (u, cont r' t)"
  by (auto simp: literal_def skip_append[symmetric] prefix_def split: if_splits)

lemma literal_suffix: "literal l r = Some (u, r') \<Longrightarrow> suffix r' r"
  by (auto simp: literal_def split: if_splits
      intro: suffix_order.trans[OF skip_suffix suffix_drop])

lemma literal_prefix: "literal l r = Some (u, r') \<Longrightarrow> prefix l r"
  by (auto simp: literal_def split: if_splits)

lemma word_Nil: "word [] = None"
  by (simp add: word_def)

lemma word_ext:
  assumes "nlt r" and "word r = Some (w, r')"
  shows "word (r @ t) = Some (w, cont r' t)"
proof -
  have n: "CHR 0x0A \<in> set r" "\<not> word_char (CHR 0x0A)"
    using nlt_has_newline[OF assms(1)] by (simp_all add: word_char_def)
  have "takeWhile word_char (r @ t) = takeWhile word_char r"
    "dropWhile word_char (r @ t) = dropWhile word_char r @ t"
    using n by (simp_all add: takeWhile_append1 dropWhile_append1)
  with assms(2) show ?thesis
    by (auto simp: word_def Let_def skip_append split: if_splits)
qed

lemma word_suffix: "word r = Some (w, r') \<Longrightarrow> suffix r' r"
  by (auto simp: word_def Let_def split: if_splits
      intro: suffix_order.trans[OF skip_suffix suffix_dropWhile])

lemma restline_ext:
  assumes "nlt r" and "restline r = Some (x, r')"
  shows "restline (r @ t) = Some (x, cont r' t)"
proof -
  have n: "CHR 0x0A \<in> set r" using nlt_has_newline[OF assms(1)] .
  have "takeWhile (\<lambda>c. c \<noteq> CHR 0x0A) (r @ t) = takeWhile (\<lambda>c. c \<noteq> CHR 0x0A) r"
    "dropWhile (\<lambda>c. c \<noteq> CHR 0x0A) (r @ t) = dropWhile (\<lambda>c. c \<noteq> CHR 0x0A) r @ t"
    using n by (simp_all add: takeWhile_append1 dropWhile_append1)
  with assms(2) show ?thesis
    by (auto simp: restline_def skip_append)
qed

lemma restline_suffix: "restline r = Some (x, r') \<Longrightarrow> suffix r' r"
  by (auto simp: restline_def intro: suffix_order.trans[OF skip_suffix suffix_dropWhile])

text \<open>A terminal that is followed by another one leaves text.\<close>

lemma literal_step:
  assumes "nlt r" and "literal l r = Some (u, r1)" and "r1 \<noteq> []"
  shows "literal l (r @ t) = Some (u, r1 @ t)" and "nlt r1"
  using literal_ext[OF assms(2), of t] nlt_suffix[OF assms(1) literal_suffix[OF assms(2)]] assms(3)
  by (simp_all add: cont_def)

lemma word_step:
  assumes "nlt r" and "word r = Some (w, r1)" and "r1 \<noteq> []"
  shows "word (r @ t) = Some (w, r1 @ t)" and "nlt r1"
  using word_ext[OF assms(1,2), of t] nlt_suffix[OF assms(1) word_suffix[OF assms(2)]] assms(3)
  by (simp_all add: cont_def)

subsection \<open>Parsing a text in two parts: statements\<close>

lemma literal_Nil: "l \<noteq> [] \<Longrightarrow> literal l [] = None"
  by (simp add: literal_def)

lemma Locale_ext:
  assumes "nlt r" and "LocaleStatement_grammar r = Some (st, r')"
  shows "LocaleStatement_grammar (r @ t) = Some (st, cont r' t)" and "suffix r' r"
proof -
  from assms(2) obtain r1 l where a: "literal ''locale'' r = Some ((), r1)"
    and b: "word r1 = Some (l, r')" and st: "st = LocaleStatement l"
    by (auto simp: LocaleStatement_grammar_def split: Option.bind_splits)
  from b have "r1 \<noteq> []" by (auto simp: word_Nil)
  note s1 = literal_step[OF assms(1) a this]
  from s1(1)[of t] word_ext[OF s1(2) b, of t] st
  show "LocaleStatement_grammar (r @ t) = Some (st, cont r' t)"
    by (simp add: LocaleStatement_grammar_def)
  from literal_suffix[OF a] word_suffix[OF b] show "suffix r' r"
    by (rule suffix_order.trans[rotated])
qed

lemma Selector_ext:
  assumes "nlt r" and "Selector_grammar r = Some (sel, r')"
  shows "Selector_grammar (r @ t) = Some (sel, cont r' t)" and "suffix r' r"
proof -
  from assms(2) obtain p r1 r2 c where a: "word r = Some (p, r1)"
    and b: "literal ''->'' r1 = Some ((), r2)" and c: "word r2 = Some (c, r')"
    and sel: "sel = \<lparr>parent = p, child = c\<rparr>"
    by (auto simp: Selector_grammar_def split: Option.bind_splits)
  from b have "r1 \<noteq> []" by (auto simp: literal_Nil)
  note s1 = word_step[OF assms(1) a this]
  from c have "r2 \<noteq> []" by (auto simp: word_Nil)
  note s2 = literal_step[OF s1(2) b this]
  from s1(1)[of t] s2(1)[of t] word_ext[OF s2(2) c, of t] sel
  show "Selector_grammar (r @ t) = Some (sel, cont r' t)"
    by (simp add: Selector_grammar_def)
  from word_suffix[OF a] literal_suffix[OF b] word_suffix[OF c] show "suffix r' r"
    by (meson suffix_order.trans)
qed

lemma Selector_Nil: "Selector_grammar [] = None"
  by (simp add: Selector_grammar_def word_Nil)

lemma SelectorStatement_ext:
  assumes "nlt r" and "SelectorStatement_grammar r = Some (st, r')"
  shows "SelectorStatement_grammar (r @ t) = Some (st, cont r' t)" and "suffix r' r"
proof -
  from assms(2) obtain r1 n r2 r3 sel where a: "literal ''selector'' r = Some ((), r1)"
    and b: "word r1 = Some (n, r2)" and c: "literal ''='' r2 = Some ((), r3)"
    and d: "Selector_grammar r3 = Some (sel, r')" and st: "st = SelectorStatement n sel"
    by (auto simp: SelectorStatement_grammar_def split: Option.bind_splits)
  from b have "r1 \<noteq> []" by (auto simp: word_Nil)
  note s1 = literal_step[OF assms(1) a this]
  from c have "r2 \<noteq> []" by (auto simp: literal_Nil)
  note s2 = word_step[OF s1(2) b this]
  from d have "r3 \<noteq> []" by (auto simp: Selector_Nil)
  note s3 = literal_step[OF s2(2) c this]
  from s1(1)[of t] s2(1)[of t] s3(1)[of t] Selector_ext(1)[OF s3(2) d, of t] st
  show "SelectorStatement_grammar (r @ t) = Some (st, cont r' t)"
    by (simp add: SelectorStatement_grammar_def)
  from literal_suffix[OF a] word_suffix[OF b] literal_suffix[OF c] Selector_ext(2)[OF s3(2) d]
  show "suffix r' r"
    by (meson suffix_order.trans)
qed

lemma dotted_more_Nil: "dotted_more [] = ([], [])"
  by (simp add: dotted_more.simps[of "[]"] literal_def)

lemma dotted_more_ext:
  assumes "nlt r" and "dotted_more r = (ws, r2)" and "prefix ''='' r2"
  shows "dotted_more (r @ t) = (ws, r2 @ t) \<and> suffix r2 r"
  using assms
proof (induction r arbitrary: ws rule: dotted_more.induct)
  case (1 s)
  note IH = "1.IH" and prems = "1.prems"
  from prems(1) have ne: "s \<noteq> []" by (simp add: nlt_def)
  show ?case
  proof (cases "literal ''.'' s")
    case None
    with prems(2) have e: "ws = []" "r2 = s" by (simp_all add: dotted_more.simps[of s])
    from None ne have "literal ''.'' (s @ t) = None"
      by (cases s) (auto simp: literal_def)
    with e show ?thesis by (simp add: dotted_more.simps[of "s @ t"])
  next
    case (Some x)
    obtain u s1 where x: "x = (u, s1)" by (cases x)
    from Some x have l: "literal ''.'' s = Some (u, s1)" by simp
    show ?thesis
    proof (cases "word s1")
      case None
      with l prems(2) have "r2 = s" by (simp add: dotted_more.simps[of s])
      with prems(3) literal_prefix[OF l] ne have False by (cases s) auto
      then show ?thesis ..
    next
      case w: (Some y)
      obtain w' s2 where y: "y = (w', s2)" by (cases y)
      from w y have wd: "word s1 = Some (w', s2)" by simp
      obtain ws' r3 where d: "dotted_more s2 = (ws', r3)" by (cases "dotted_more s2")
      from prems(2) l wd d have e: "ws = w' # ws'" "r2 = r3"
        by (simp_all add: dotted_more.simps[of s])
      from wd have "s1 \<noteq> []" by (auto simp: word_Nil)
      note s1 = literal_step[OF prems(1) l this]
      have "s2 \<noteq> []"
      proof
        assume "s2 = []"
        with d dotted_more_Nil have "r3 = []" by simp
        with e prems(3) show False by simp
      qed
      note s2 = word_step[OF s1(2) wd this]
      from d e have d': "dotted_more s2 = (ws', r2)" by simp
      from IH[OF Some x[symmetric] w y[symmetric] s2(2) d' prems(3)] e
      have i: "dotted_more (s2 @ t) = (ws', r3 @ t)" and su: "suffix r3 s2" by simp_all
      from s1(1)[of t] s2(1)[of t] i e
      have "dotted_more (s @ t) = (ws, r2 @ t)"
        by (simp add: dotted_more.simps[of "s @ t"])
      moreover from literal_suffix[OF l] word_suffix[OF wd] su e have "suffix r2 s"
        by (meson suffix_order.trans)
      ultimately show ?thesis by simp
    qed
  qed
qed

lemma Export_ext:
  assumes "nlt r" and "ExportStatement_grammar r = Some (st, r')"
  shows "ExportStatement_grammar (r @ t) = Some (st, cont r' t)" and "suffix r' r"
proof -
  from assms(2) obtain r1 w r2 ws r3 r4 ref where a: "literal ''export'' r = Some ((), r1)"
    and b: "word r1 = Some (w, r2)" and c: "dotted_more r2 = (ws, r3)"
    and d: "literal ''='' r3 = Some ((), r4)" and e: "word r4 = Some (ref, r')"
    and st: "st = ExportStatement (w # ws) ref"
    by (auto simp: ExportStatement_grammar_def DottedName_grammar_def
        split: Option.bind_splits prod.splits)
  from b have "r1 \<noteq> []" by (auto simp: word_Nil)
  note s1 = literal_step[OF assms(1) a this]
  have "r2 \<noteq> []"
  proof
    assume "r2 = []"
    with c dotted_more_Nil have "r3 = []" by simp
    with d show False by (simp add: literal_Nil)
  qed
  note s2 = word_step[OF s1(2) b this]
  from dotted_more_ext[OF s2(2) c literal_prefix[OF d], of t]
  have s3: "dotted_more (r2 @ t) = (ws, r3 @ t)" "suffix r3 r2" by simp_all
  from d have r3: "r3 \<noteq> []" by (auto simp: literal_Nil)
  from nlt_suffix[OF s2(2) s3(2) r3] have n3: "nlt r3" .
  from e have "r4 \<noteq> []" by (auto simp: word_Nil)
  note s4 = literal_step[OF n3 d this]
  from s1(1)[of t] s2(1)[of t] s3(1) s4(1)[of t] word_ext[OF s4(2) e, of t] st
  show "ExportStatement_grammar (r @ t) = Some (st, cont r' t)"
    by (simp add: ExportStatement_grammar_def DottedName_grammar_def)
  from literal_suffix[OF a] word_suffix[OF b] s3(2) literal_suffix[OF d] word_suffix[OF e]
  show "suffix r' r"
    by (meson suffix_order.trans)
qed

lemma bare_hash_start:
  assumes "nlt r" and "literal ''#'' r = Some (u, r1)" and "r1 = []"
  shows "bare_hash r"
proof -
  from assms(2) obtain r0 where r: "r = CHR ''#'' # r0" and s: "skip r0 = r1"
    by (cases r) (auto simp: literal_def split: if_splits)
  from assms(3) s have all: "\<forall>c \<in> set r0. space_char c"
    by (simp add: skip_def dropWhile_eq_Nil_conv)
  from assms(1) r have "r0 \<noteq> []" "last r0 = CHR 0x0A"
    by (auto simp: nlt_def split: if_splits)
  then have nl: "CHR 0x0A \<in> set r0" by (auto dest: last_in_set)
  let ?P = "\<lambda>c. space_char c \<and> c \<noteq> CHR 0x0A"
  from nl have "dropWhile ?P r0 \<noteq> []" by (auto simp: dropWhile_eq_Nil_conv)
  then have "\<not> ?P (hd (dropWhile ?P r0))" by (rule hd_dropWhile)
  moreover have "hd (dropWhile ?P r0) \<in> set r0"
    using \<open>dropWhile ?P r0 \<noteq> []\<close> by (metis hd_in_set set_dropWhileD)
  ultimately have "hd (dropWhile ?P r0) = CHR 0x0A" using all by auto
  with \<open>dropWhile ?P r0 \<noteq> []\<close> have "prefix [CHR 0x0A] (dropWhile ?P r0)"
    by (cases "dropWhile ?P r0") auto
  with r show ?thesis by simp
qed

lemma Comment_ext:
  assumes "nlt r" and "\<not> bare_hash r" and "Comment_grammar r = Some (st, r')"
  shows "Comment_grammar (r @ t) = Some (st, cont r' t)" and "suffix r' r"
proof -
  from assms(3) obtain r1 x where a: "literal ''#'' r = Some ((), r1)"
    and b: "restline r1 = Some (x, r')" and st: "st = Comment x"
    by (auto simp: Comment_grammar_def split: Option.bind_splits)
  from bare_hash_start[OF assms(1) a] assms(2) have "r1 \<noteq> []" by blast
  note s1 = literal_step[OF assms(1) a this]
  from s1(1)[of t] restline_ext[OF s1(2) b, of t] st
  show "Comment_grammar (r @ t) = Some (st, cont r' t)"
    by (simp add: Comment_grammar_def)
  from literal_suffix[OF a] restline_suffix[OF b] show "suffix r' r"
    by (meson suffix_order.trans)
qed

subsection \<open>Parsing a text in two parts: the choice and the repetition\<close>

lemma Comment_hd: "c \<noteq> CHR ''#'' \<Longrightarrow> Comment_grammar (c # s) = None"
  by (simp add: Comment_grammar_def literal_def)

lemma Export_hd: "c \<noteq> CHR ''e'' \<Longrightarrow> ExportStatement_grammar (c # s) = None"
  by (simp add: ExportStatement_grammar_def literal_def)

lemma Locale_hd: "c \<noteq> CHR ''l'' \<Longrightarrow> LocaleStatement_grammar (c # s) = None"
  by (simp add: LocaleStatement_grammar_def literal_def)

lemma Export_starts: "ExportStatement_grammar r = Some x \<Longrightarrow> \<exists>s. r = CHR ''e'' # s"
  by (cases r) (auto simp: ExportStatement_grammar_def literal_def split: Option.bind_splits if_splits)

lemma Locale_starts: "LocaleStatement_grammar r = Some x \<Longrightarrow> \<exists>s. r = CHR ''l'' # s"
  by (cases r) (auto simp: LocaleStatement_grammar_def literal_def split: Option.bind_splits if_splits)

lemma Selector_starts: "SelectorStatement_grammar r = Some x \<Longrightarrow> \<exists>s. r = CHR ''s'' # s"
  by (cases r) (auto simp: SelectorStatement_grammar_def literal_def split: Option.bind_splits if_splits)

lemma statement_ext:
  assumes "nlt r" and "\<not> bare_hash r" and "statement r = Some (st, r')"
  shows "statement (r @ t) = Some (st, cont r' t)" and "suffix r' r"
proof -
  consider (c) "Comment_grammar r = Some (st, r')"
    | (e) "ExportStatement_grammar r = Some (st, r')"
    | (l) "LocaleStatement_grammar r = Some (st, r')"
    | (s) "SelectorStatement_grammar r = Some (st, r')"
    using assms(3) by (auto simp: statement_def split: option.splits)
  then have "statement (r @ t) = Some (st, cont r' t) \<and> suffix r' r"
  proof cases
    case c
    from Comment_ext(1)[OF assms(1,2) c, of t] Comment_ext(2)[OF assms(1,2) c] show ?thesis by (simp add: statement_def)
  next
    case e
    from Export_starts[OF e] obtain s where "r = CHR ''e'' # s" ..
    then have "Comment_grammar (r @ t) = None" by (simp add: Comment_hd)
    with Export_ext(1)[OF assms(1) e, of t] Export_ext(2)[OF assms(1) e] show ?thesis by (simp add: statement_def)
  next
    case l
    from Locale_starts[OF l] obtain s where "r = CHR ''l'' # s" ..
    then have "Comment_grammar (r @ t) = None" "ExportStatement_grammar (r @ t) = None"
      by (simp_all add: Comment_hd Export_hd)
    with Locale_ext(1)[OF assms(1) l, of t] Locale_ext(2)[OF assms(1) l] show ?thesis by (simp add: statement_def)
  next
    case s
    from Selector_starts[OF s] obtain s' where "r = CHR ''s'' # s'" ..
    then have "Comment_grammar (r @ t) = None" "ExportStatement_grammar (r @ t) = None"
      "LocaleStatement_grammar (r @ t) = None"
      by (simp_all add: Comment_hd Export_hd Locale_hd)
    with SelectorStatement_ext(1)[OF assms(1) s, of t] SelectorStatement_ext(2)[OF assms(1) s] show ?thesis by (simp add: statement_def)
  qed
  then show "statement (r @ t) = Some (st, cont r' t)" and "suffix r' r" by simp_all
qed

lemma statement_Nil: "statement [] = None"
  by (simp add: statement_def Comment_grammar_def ExportStatement_grammar_def
      LocaleStatement_grammar_def SelectorStatement_grammar_def literal_def)

lemma maybe_some_statements_ext:
  assumes "r = [] \<or> nlt r" and "\<not> bare_hash r" and "maybe_some_statements r = (ast, [])"
  shows "maybe_some_statements (cont r t)
           = (ast @ fst (maybe_some_statements (skip t)), snd (maybe_some_statements (skip t)))"
  using assms
proof (induction r arbitrary: ast rule: maybe_some_statements.induct)
  case (1 s)
  note IH = "1.IH" and prems = "1.prems"
  show ?case
  proof (cases "s = []")
    case True
    with prems(3) have "ast = []"
      by (simp add: maybe_some_statements.simps[of "[]"] statement_Nil)
    with True show ?thesis by (simp add: cont_def)
  next
    case False
    with prems(1) have n: "nlt s" by simp
    show ?thesis
    proof (cases "statement s")
      case None
      with prems(3) False show ?thesis by (simp add: maybe_some_statements.simps[of s])
    next
      case (Some x)
      obtain st s1 where x: "x = (st, s1)" by (cases x)
      obtain ast' rest where m: "maybe_some_statements s1 = (ast', rest)"
        by (cases "maybe_some_statements s1")
      from prems(3) Some x m have e: "ast = st # ast'" "rest = []"
        by (simp_all add: maybe_some_statements.simps[of s])
      from Some x have st: "statement s = Some (st, s1)" by simp
      note ext = statement_ext[OF n prems(2) st]
      from nlt_suffix[OF n ext(2)] have n1: "s1 = [] \<or> nlt s1" by blast
      from bare_hash_suffix[OF ext(2)] prems(2) have b1: "\<not> bare_hash s1" by blast
      from m e have m': "maybe_some_statements s1 = (ast', [])" by simp
      from IH[OF Some x[symmetric] n1 b1 m']
      have "maybe_some_statements (cont s1 t)
          = (ast' @ fst (maybe_some_statements (skip t)), snd (maybe_some_statements (skip t)))" .
      with ext(1)[of t] e False show ?thesis
        by (simp add: maybe_some_statements.simps[of "s @ t"] cont_def)
    qed
  qed
qed

lemma parse_append:
  assumes "pypeg2_parse good = Inr ast" and "good = [] \<or> last good = CHR 0x0A"
    and "\<not> bare_hash good"
  shows "pypeg2_parse (good @ rest)
           = (case pypeg2_parse rest of Inl e \<Rightarrow> Inl e | Inr ast' \<Rightarrow> Inr (ast @ ast'))"
proof -
  from assms(1) have a: "list_all (\<lambda>c. (of_char c :: nat) < 128) good"
    and m: "maybe_some_statements (skip good) = (ast, [])"
    by (auto simp: pypeg2_parse_def split: if_splits prod.splits)
  have n: "skip good = [] \<or> nlt (skip good)"
  proof (cases "skip good = []")
    case False
    with assms(2) have "nlt good" by (auto simp: nlt_def skip_def)
    from nlt_suffix[OF this skip_suffix False] show ?thesis ..
  qed simp
  from bare_hash_suffix[OF skip_suffix] assms(3) have b: "\<not> bare_hash (skip good)" by blast
  from maybe_some_statements_ext[OF n b m, of rest]
  have "maybe_some_statements (skip (good @ rest))
      = (ast @ fst (maybe_some_statements (skip rest)), snd (maybe_some_statements (skip rest)))"
    by (simp add: skip_append)
  with a show ?thesis
    by (auto simp: pypeg2_parse_def split: prod.splits)
qed

subsection \<open>Reading back what \<^verbatim>\<open>tostring\<close> writes: escaping\<close>

lemma unescape_Cons_plain:
  "c \<noteq> CHR ''&'' \<Longrightarrow> unescape (c # cs) = (case unescape cs of Inl e \<Rightarrow> Inl e | Inr t \<Rightarrow> Inr (c # t))"
  by simp











subsection \<open>Names\<close>

lemma after_name_simps [simp]:
  "after_name (CHR 0x20 # s)" "after_name (CHR ''/'' # s)" "after_name (CHR ''>'' # s)"
  "after_name (CHR ''='' # s)"
  by (simp_all add: after_name_def)






subsection \<open>Attributes\<close>



lemma attr_tostring_shape:
  "attr_tostring (k, v) @ s = CHR 0x20 # k @ [CHR ''='', CHR 0x22] @ escape_attr v @ CHR 0x22 # s"
  by (simp add: attr_tostring_def)



subsection \<open>Tokens\<close>











subsection \<open>Building the tree\<close>







subsection \<open>The characters of a serialisation\<close>








subsection \<open>Reading a serialisation\<close>

lemma serialisable_without_tail: "serialisable e \<Longrightarrow> serialisable (without_tail e)"
  by (cases e) simp

lemma node_dump_without_tail: "node_dump (without_tail e) = node_dump e"
  by (cases e) simp





subsection \<open>The notebook's texts, evaluated\<close>

lemma tostring_anchor:
  \<open>tostring (Element ''a'' [(''href'', ''/foo'')] ''a link.'' [] []) = Inr ''<a href="/foo">a link.</a>''\<close>
  by code_simp


text \<open>
  The models of the two libraries on the texts of the notebook and of the
  specification's examples.  \<open>notebook_run\<close> is the run that cell 6 records, with the
  dictionary it printed.
\<close>

lemmas ground = xpath_def xpath_path_family child_of_def is_name_def is_word_def word_char_def
  digit_char_def export_branch_def tostring_anchor

lemma parse_three_lines: "pypeg2_parse three_lines = Inr three_statements"
  by code_simp

text \<open>
  The bound on the length of a document is checked by arithmetic, the parser itself is
  evaluated.
\<close>

lemma fromstring_short: "length html \<le> 50000 \<Longrightarrow> lxml_fromstring html = parse_document html"
  by (simp add: lxml_fromstring_def)

lemma run_short:
  "length html \<le> 50000 \<Longrightarrow>
     run pylib g code html pr = run (pylib\<lparr>fromstring := parse_document\<rparr>) g code html pr"
  by (simp add: run_def pylib_def fromstring_short cong: sum.case_cong)

lemma short_texts:
  "length p_text \<le> 50000" "length nested_text \<le> 50000" "length notebook_doc \<le> 50000"
  by (simp_all add: p_text_def nested_text_def notebook_doc_def)

lemma fromstring_p_text: "lxml_fromstring p_text = Inr p_element"
proof -
  have "parse_document p_text = Inr p_element" by code_simp
  with fromstring_short[OF short_texts(1)] show ?thesis by simp
qed

lemma fromstring_nested: "lxml_fromstring nested_text = Inr nested_element"
proof -
  have "parse_document nested_text = Inr nested_element" by code_simp
  with fromstring_short[OF short_texts(2)] show ?thesis by simp
qed

lemma notebook_run:
  "run pylib \<lparr>scraper = notebook_scraper\<rparr> code notebook_doc host
     = (Inr (), host\<lparr>lc_all := ''en_US'', stdout := [PrintExport notebook_output]\<rparr>)"
proof -
  have "run (pylib\<lparr>fromstring := parse_document\<rparr>) \<lparr>scraper = notebook_scraper\<rparr> [] notebook_doc host
     = (Inr (), host\<lparr>lc_all := ''en_US'', stdout := [PrintExport notebook_output]\<rparr>)"
    by code_simp
  with run_short[OF short_texts(3)]
  have "run pylib \<lparr>scraper = notebook_scraper\<rparr> [] notebook_doc host
     = (Inr (), host\<lparr>lc_all := ''en_US'', stdout := [PrintExport notebook_output]\<rparr>)"
    by simp
  then show ?thesis by (simp add: run_def)
qed

lemma three_lines_run:
  "run pylib \<lparr>scraper = three_lines\<rparr> code p_text host
     = (Inr (), host\<lparr>lc_all := ''en_US'', stdout := [PrintExport paragraph_tree]\<rparr>)"
proof -
  have "run (pylib\<lparr>fromstring := parse_document\<rparr>) \<lparr>scraper = three_lines\<rparr> [] p_text host
     = (Inr (), host\<lparr>lc_all := ''en_US'', stdout := [PrintExport paragraph_tree]\<rparr>)"
    by code_simp
  with run_short[OF short_texts(1)]
  have "run pylib \<lparr>scraper = three_lines\<rparr> [] p_text host
     = (Inr (), host\<lparr>lc_all := ''en_US'', stdout := [PrintExport paragraph_tree]\<rparr>)"
    by simp
  then show ?thesis by (simp add: run_def)
qed

section \<open>Properties\<close>

subsection \<open>The end-to-end example\<close>

text \<open>
  C1 (amended).  When the script that \<open>run\<close> parses is the three-line script
  \<^verbatim>\<open>locale en_US / selector paragraph = p -> a / export foo.paragraph = paragraph\<close> (here
  it is both the module-global \<^verbatim>\<open>scraper\<close> and the argument), the document is
  \<^verbatim>\<open><p>A paragraph. It contains <a href='/foo'>a link.</a></p>\<close> and the host knows the
  locale \<^verbatim>\<open>en_US\<close>, the run sets the locale, prints the dictionary
  \<^verbatim>\<open>{'foo': {'paragraph': [b'<a href="/foo">a link.</a>']}}\<close>, whose single leaf is a
  one-element list holding the serialised anchor as a byte string, and returns
  \<^verbatim>\<open>None\<close>.
\<close>

theorem end_to_end_prints:
  assumes "''en_US'' \<in> set (installed pr)"
  shows "run pylib \<lparr>scraper = three_lines\<rparr> three_lines p_text pr
       = (Inr (), pr\<lparr>lc_all := ''en_US'', stdout := stdout pr @ [PrintExport paragraph_tree]\<rparr>)"
  using assms
  by (simp add: run_def pylib_def parse_three_lines fromstring_p_text three_statements_def
      p_element_def paragraph_tree_def ground)

text \<open>
  The same on the host that knows \<^verbatim>\<open>C\<close> and \<^verbatim>\<open>en_US\<close>.
\<close>

theorem end_to_end_prints_witness:
  "run pylib \<lparr>scraper = three_lines\<rparr> three_lines p_text host
     = (Inr (), host\<lparr>lc_all := ''en_US'', stdout := [PrintExport paragraph_tree]\<rparr>)"
  using end_to_end_prints[of host] by (simp add: host_def)

text \<open>
  C1 as stated fails.  The run returns \<^verbatim>\<open>None\<close>: the dictionary goes to standard output and
  is not the value of the call, also when the global \<^verbatim>\<open>scraper\<close> is the three-line script.
  And in the notebook's own namespace, \<^verbatim>\<open>run(three_lines, doc)\<close> on the document of cell 4
  (which contains that paragraph) prints the dictionary of cell 6, with the key \<^verbatim>\<open>list\<close>
  that the three-line script never exports.
\<close>

theorem end_to_end_counterexample:
  "run pylib \<lparr>scraper = three_lines\<rparr> three_lines p_text host
     = (Inr (), host\<lparr>lc_all := ''en_US'', stdout := [PrintExport paragraph_tree]\<rparr>)
   \<and> run pylib \<lparr>scraper = notebook_scraper\<rparr> three_lines notebook_doc host
     = (Inr (), host\<lparr>lc_all := ''en_US'', stdout := [PrintExport notebook_output]\<rparr>)
   \<and> notebook_output \<noteq> paragraph_tree"
  by (simp add: three_lines_run notebook_run notebook_output_def paragraph_tree_def)

subsection \<open>What a selector selects\<close>

text \<open>
  C2 (amended).  For every selector \<^verbatim>\<open>parent -> child\<close> whose two words are XPath names
  and every document, the query returns exactly the elements whose tag is \<open>child\<close> and
  whose parent element has the tag \<open>parent\<close>, in document order: the child is a direct
  child.  A word that starts with a digit makes the query fail with \<^verbatim>\<open>XPathEvalError\<close>.
\<close>

theorem xpath_selects_children:
  "xpath doc sel =
     (if is_name (parent sel) \<and> is_name (child sel)
      then Inr (map snd (filter (child_of (parent sel) (child sel)) (family doc)))
      else if is_word (parent sel) \<and> is_word (child sel) then Inl XPathEvalError
      else Inl NotModelled)"
  by (simp add: xpath_def xpath_path_family)

text \<open>
  C2 as stated fails: in \<^verbatim>\<open><p><b><a/></b></p>\<close> the anchor has a \<^verbatim>\<open>p\<close> among its ancestors,
  so the specification's reading selects it, and the query of \<open>run\<close> selects nothing.
\<close>

theorem descendant_not_selected:
  "lxml_fromstring nested_text = Inr nested_element
   \<and> xpath nested_element p_a = Inr []
   \<and> spec_select False ''p'' ''a'' nested_element = [Element ''a'' [] [] [] []]"
  by (simp add: fromstring_nested nested_element_def p_a_def ground)

subsection \<open>The locale\<close>

text \<open>
  C3 (amended).  A locale statement sets the locale of the whole process: after a run
  that ended without an exception the process locale is the identifier of the last
  locale statement of the script (the locale from before the run when the script has
  none); it stays in force after the run, for every later run in the process.
\<close>

theorem locale_is_process_wide:
  assumes "parse lib (scraper g) = Inr ast" and "run lib g code html pr = (Inr (), pr')"
  shows "lc_all pr' = last (lc_all pr # locales_of ast)"
proof -
  from assms obtain doc st pr1 where "exec doc ast (Map.empty, PyDict []) pr = (Inr st, pr1)"
    and "pr' = pr1\<lparr>stdout := stdout pr1 @ [PrintExport (snd st)]\<rparr>"
    by (auto simp: run_def split: sum.splits prod.splits)
  with exec_lc_all[of doc ast _ pr st pr1] show ?thesis by simp
qed

text \<open>
  The three-line script on the host in the C locale.
\<close>

theorem locale_is_process_wide_witness:
  "lc_all (snd (run pylib \<lparr>scraper = three_lines\<rparr> three_lines p_text host))
     = last (lc_all host # locales_of three_statements)"
proof -
  have p: "parse pylib (scraper \<lparr>scraper = three_lines\<rparr>) = Inr three_statements"
    by (simp add: pylib_def parse_three_lines)
  have r: "run pylib \<lparr>scraper = three_lines\<rparr> three_lines p_text host
      = (Inr (), host\<lparr>lc_all := ''en_US'', stdout := [PrintExport paragraph_tree]\<rparr>)"
    by (rule three_lines_run)
  from locale_is_process_wide[OF p r] show ?thesis by (simp add: r)
qed

text \<open>
  C3 as stated fails: the run of the three-line script changes the process locale from
  \<^verbatim>\<open>C\<close> to \<^verbatim>\<open>en_US\<close>, and a later run of another script, which has no locale statement,
  still ends in \<^verbatim>\<open>en_US\<close>.
\<close>

theorem locale_outlives_run:
  "lc_all host = ''C''
   \<and> lc_all (snd (run pylib \<lparr>scraper = three_lines\<rparr> three_lines p_text host)) = ''en_US''
   \<and> lc_all (snd (run pylib \<lparr>scraper = undeclared_script\<rparr> undeclared_script p_text
        (snd (run pylib \<lparr>scraper = three_lines\<rparr> three_lines p_text host)))) = ''en_US''"
proof -
  have "lc_all (snd (run (pylib\<lparr>fromstring := parse_document\<rparr>) \<lparr>scraper = undeclared_script\<rparr>
          undeclared_script p_text
          (host\<lparr>lc_all := ''en_US'', stdout := [PrintExport paragraph_tree]\<rparr>))) = ''en_US''"
    by code_simp
  then have "lc_all (snd (run pylib \<lparr>scraper = undeclared_script\<rparr> undeclared_script p_text
          (host\<lparr>lc_all := ''en_US'', stdout := [PrintExport paragraph_tree]\<rparr>))) = ''en_US''"
    by (simp add: run_short[OF short_texts(1)])
  then show ?thesis by (simp add: three_lines_run) (simp add: host_def)
qed

subsection \<open>The script argument\<close>

text \<open>
  C4.  \<open>run\<close> parses the module-global \<^verbatim>\<open>scraper\<close>, never its argument \<^verbatim>\<open>code\<close>: with
  the same global, the same document and the same process state, two calls with
  different script texts give the same outcome, the same printed output and the same
  locale.
\<close>

theorem run_ignores_code: "run lib g s1 html pr = run lib g s2 html pr"
  by (simp add: run_def)

subsection \<open>What an export stores\<close>




subsection \<open>An export of an undeclared selector\<close>

text \<open>
  C6 (amended).  For every script with an export statement whose selector name no
  earlier selector statement declares, the run ends with an exception and prints no
  export dictionary.  The exception is \<^verbatim>\<open>KeyError\<close> with that name (Python's error for
  the missing key of \<^verbatim>\<open>selectors\<close>) whenever the statements before the export end
  without an exception and the walk along the export's path meets no list.
\<close>

theorem undeclared_selector_fails:
  assumes "parse lib (scraper g) = Inr (pre @ ExportStatement dotted ref # post)"
    and "\<forall>s \<in> set pre. \<not> declares ref s"
  shows "(\<exists>e pr'. run lib g code html pr = (Inl e, pr') \<and>
            (\<forall>t. PrintExport t \<in> set (stdout pr') \<longrightarrow> PrintExport t \<in> set (stdout pr)))
       \<and> (\<forall>doc sels ex pr1 ex1. fromstring lib html = Inr doc \<longrightarrow>
             exec doc pre (Map.empty, PyDict []) pr = (Inr (sels, ex), pr1) \<longrightarrow>
             descend (butlast dotted) ex = Inr ex1 \<longrightarrow>
             run lib g code html pr = (Inl (KeyError ref), pr1))"
proof (intro conjI allI impI)
  show "\<exists>e pr'. run lib g code html pr = (Inl e, pr') \<and>
            (\<forall>t. PrintExport t \<in> set (stdout pr') \<longrightarrow> PrintExport t \<in> set (stdout pr))"
  proof (cases "fromstring lib html")
    case (Inl e)
    with assms(1) show ?thesis by (simp add: run_def)
  next
    case (Inr doc)
    let ?ast = "pre @ ExportStatement dotted ref # post"
    obtain r pr1 where ex: "exec doc ?ast (Map.empty, PyDict []) pr = (r, pr1)"
      by (cases "exec doc ?ast (Map.empty, PyDict []) pr")
    from export_undeclared_fails[OF assms(2), of doc dotted post "PyDict []" pr] ex
    obtain e where r: "r = Inl e" by (cases r) auto
    from exec_stdout[OF ex]
    have "\<forall>t. PrintExport t \<in> set (stdout pr1) \<longrightarrow> PrintExport t \<in> set (stdout pr)"
      by blast
    with assms(1) Inr ex r show ?thesis by (simp add: run_def)
  qed
next
  fix doc sels ex pr1 ex1
  assume "fromstring lib html = Inr doc"
    "exec doc pre (Map.empty, PyDict []) pr = (Inr (sels, ex), pr1)"
    "descend (butlast dotted) ex = Inr ex1"
  with export_undeclared_KeyError[OF assms(2), of doc "PyDict []" pr sels ex pr1 dotted ex1 post]
    assms(1)
  show "run lib g code html pr = (Inl (KeyError ref), pr1)" by (simp add: run_def)
qed

text \<open>
  The script \<^verbatim>\<open>export out.v = missing\<close>.
\<close>

theorem undeclared_selector_fails_witness:
  "run pylib \<lparr>scraper = undeclared_script\<rparr> undeclared_script p_text host
     = (Inl (KeyError ''missing''), host)"
proof -
  have p: "parse pylib (scraper \<lparr>scraper = undeclared_script\<rparr>)
      = Inr ([] @ ExportStatement [''out'', ''v''] ''missing'' # [])"
    unfolding pylib_def by code_simp
  have d: "\<forall>s \<in> set []. \<not> declares ''missing'' s" by simp
  have f: "fromstring pylib p_text = Inr p_element"
    by (simp add: pylib_def fromstring_p_text)
  have e: "exec p_element [] (Map.empty, PyDict []) host = (Inr (Map.empty, PyDict []), host)"
    by simp
  have w: "descend (butlast [''out'', ''v'']) (PyDict []) = Inr (PyDict [(''out'', PyDict [])])"
    by simp
  from undeclared_selector_fails[OF p d, of undeclared_script p_text host] f e w
  show ?thesis by blast
qed

text \<open>
  C6 as stated fails: in \<^verbatim>\<open>selector s = p -> a / export a = s / export a.b.c = missing\<close>
  the walk along \<^verbatim>\<open>a.b\<close> meets the list stored at \<^verbatim>\<open>a\<close> before \<^verbatim>\<open>selectors\<close> is read:
  the run ends with \<^verbatim>\<open>TypeError\<close>, not with the error of the undeclared selector.
\<close>

theorem undeclared_selector_other_error:
  "pypeg2_parse leaf_conflict_script
     = Inr [SelectorStatement ''s'' p_a, ExportStatement [''a''] ''s'',
            ExportStatement [''a'', ''b'', ''c''] ''missing'']
   \<and> run pylib \<lparr>scraper = leaf_conflict_script\<rparr> leaf_conflict_script p_text host
     = (Inl TypeError, host)"
proof -
  have "pypeg2_parse leaf_conflict_script
     = Inr [SelectorStatement ''s'' p_a, ExportStatement [''a''] ''s'',
            ExportStatement [''a'', ''b'', ''c''] ''missing'']"
    by code_simp
  moreover have "run (pylib\<lparr>fromstring := parse_document\<rparr>) \<lparr>scraper = leaf_conflict_script\<rparr>
      leaf_conflict_script p_text host = (Inl TypeError, host)"
    by code_simp
  ultimately show ?thesis by (simp add: run_short[OF short_texts(1)])
qed

subsection \<open>A selector declared twice\<close>

text \<open>
  C7.  A script declares the selector \<open>a\<close> twice, first as \<open>s1\<close> and later as \<open>s2\<close>.
  An export of \<open>a\<close> that follows the second declaration, with no further declaration of \<open>a\<close>
  in between, stores the elements that \<open>s2\<close> selects, whatever \<open>s1\<close> was.  And when no
  statement between the two declarations exports \<open>a\<close>, the script runs exactly as the
  script without the first declaration: the earlier binding is replaced.
\<close>

theorem selector_last_write_wins:
  "((\<forall>s \<in> set post. \<not> declares a s) \<longrightarrow>
      exec doc (pre @ SelectorStatement a s1 # mid @ SelectorStatement a s2 # post
                  @ [ExportStatement d a]) st pr = (Inr (sels', ex'), pr') \<longrightarrow>
      (\<exists>hits leaf. xpath doc s2 = Inr hits \<and> tostring_each hits = Inr leaf \<and>
         lookup_path d ex' = Some (PyList leaf)))
   \<and> ((\<forall>s \<in> set mid. \<not> exports_of a s) \<longrightarrow>
      exec doc (pre @ SelectorStatement a s1 # mid @ SelectorStatement a s2 # post) st pr
       = exec doc (pre @ mid @ SelectorStatement a s2 # post) st pr)"
proof (intro conjI impI)
  assume post: "\<forall>s \<in> set post. \<not> declares a s"
    and run: "exec doc (pre @ SelectorStatement a s1 # mid @ SelectorStatement a s2 # post
                  @ [ExportStatement d a]) st pr = (Inr (sels', ex'), pr')"
  have split: "pre @ SelectorStatement a s1 # mid @ SelectorStatement a s2 # post @ [ExportStatement d a]
      = (pre @ SelectorStatement a s1 # mid) @ SelectorStatement a s2 # post @ [ExportStatement d a]"
    by simp
  from run have "exec doc ((pre @ SelectorStatement a s1 # mid) @ SelectorStatement a s2 # post
                  @ [ExportStatement d a]) st pr = (Inr (sels', ex'), pr')"
    unfolding split .
  from export_after_declaration[OF this post]
  show "\<exists>hits leaf. xpath doc s2 = Inr hits \<and> tostring_each hits = Inr leaf \<and>
          lookup_path d ex' = Some (PyList leaf)" .
next
  assume mid: "\<forall>s \<in> set mid. \<not> exports_of a s"
  have "exec doc (pre @ (SelectorStatement a s1 # mid @ SelectorStatement a s2 # post)) st pr
      = exec doc (pre @ (mid @ SelectorStatement a s2 # post)) st pr"
    unfolding exec_append[of doc pre] exec_shadowed[OF mid] by (rule refl)
  then show "exec doc (pre @ SelectorStatement a s1 # mid @ SelectorStatement a s2 # post) st pr
       = exec doc (pre @ mid @ SelectorStatement a s2 # post) st pr"
    by simp
qed

text \<open>
  \<^verbatim>\<open>selector a = x -> y\<close>, a comment, \<^verbatim>\<open>selector a = p -> a\<close>, \<^verbatim>\<open>export out = a\<close>: the export
  holds the anchor of the paragraph, which \<^verbatim>\<open>p -> a\<close> selects, and the run is the run of
  the script without its first line.
\<close>

theorem selector_last_write_wins_witness:
  \<open>exported (exec p_element
      ([] @ SelectorStatement ''a'' \<lparr>parent = ''x'', child = ''y''\<rparr> # [Comment ''again'']
         @ SelectorStatement ''a'' p_a # [] @ [ExportStatement [''out''] ''a''])
      (Map.empty, PyDict []) host)
    = Some (PyDict [(''out'', PyList [''<a href="/foo">a link.</a>''])])
   \<and> (\<exists>hits leaf. xpath p_element p_a = Inr hits \<and> tostring_each hits = Inr leaf
        \<and> lookup_path [''out''] (PyDict [(''out'', PyList [''<a href="/foo">a link.</a>''])])
          = Some (PyList leaf))
   \<and> exec p_element
      ([] @ SelectorStatement ''a'' \<lparr>parent = ''x'', child = ''y''\<rparr> # [Comment ''again'']
         @ SelectorStatement ''a'' p_a # [ExportStatement [''out''] ''a''])
      (Map.empty, PyDict []) host
    = exec p_element
      ([] @ [Comment ''again''] @ SelectorStatement ''a'' p_a # [ExportStatement [''out''] ''a''])
      (Map.empty, PyDict []) host\<close>
proof -
  have ex: \<open>exported (exec p_element
      ([] @ SelectorStatement ''a'' \<lparr>parent = ''x'', child = ''y''\<rparr> # [Comment ''again'']
         @ SelectorStatement ''a'' p_a # [] @ [ExportStatement [''out''] ''a''])
      (Map.empty, PyDict []) host)
    = Some (PyDict [(''out'', PyList [''<a href="/foo">a link.</a>''])])\<close>
    by (simp add: p_element_def p_a_def ground)
  from exported_SomeD[OF ex] obtain sels' where \<open>\<exists>pr'. exec p_element
      ([] @ SelectorStatement ''a'' \<lparr>parent = ''x'', child = ''y''\<rparr> # [Comment ''again'']
         @ SelectorStatement ''a'' p_a # [] @ [ExportStatement [''out''] ''a''])
      (Map.empty, PyDict []) host
    = (Inr (sels', PyDict [(''out'', PyList [''<a href="/foo">a link.</a>''])]), pr')\<close> ..
  then obtain pr' where run: \<open>exec p_element
      ([] @ SelectorStatement ''a'' \<lparr>parent = ''x'', child = ''y''\<rparr> # [Comment ''again'']
         @ SelectorStatement ''a'' p_a # [] @ [ExportStatement [''out''] ''a''])
      (Map.empty, PyDict []) host
    = (Inr (sels', PyDict [(''out'', PyList [''<a href="/foo">a link.</a>''])]), pr')\<close> ..
  have post: "\<forall>s \<in> set []. \<not> declares ''a'' s" by simp
  have mid: "\<forall>s \<in> set [Comment ''again'']. \<not> exports_of ''a'' s" by simp
  note later = selector_last_write_wins[where post = "[]" and a = "''a''" and doc = p_element
      and pre = "[]" and ?s1.0 = "\<lparr>parent = ''x'', child = ''y''\<rparr>"
      and mid = "[Comment ''again'']" and ?s2.0 = p_a and d = "[''out'']"
      and st = "(Map.empty, PyDict [])" and pr = host and sels' = sels'
      and ex' = \<open>PyDict [(''out'', PyList [''<a href="/foo">a link.</a>''])]\<close>
      and pr' = pr']
  have one: \<open>\<exists>hits leaf. xpath p_element p_a = Inr hits \<and> tostring_each hits = Inr leaf
        \<and> lookup_path [''out''] (PyDict [(''out'', PyList [''<a href="/foo">a link.</a>''])])
          = Some (PyList leaf)\<close>
    by (rule mp[OF mp[OF later[THEN conjunct1] post] run])
  note replaced = selector_last_write_wins[where post = "[ExportStatement [''out''] ''a'']"
      and a = "''a''" and doc = p_element
      and pre = "[]" and ?s1.0 = "\<lparr>parent = ''x'', child = ''y''\<rparr>"
      and mid = "[Comment ''again'']" and ?s2.0 = p_a and st = "(Map.empty, PyDict [])"
      and pr = host]
  have two: \<open>exec p_element
      ([] @ SelectorStatement ''a'' \<lparr>parent = ''x'', child = ''y''\<rparr> # [Comment ''again'']
         @ SelectorStatement ''a'' p_a # [ExportStatement [''out''] ''a''])
      (Map.empty, PyDict []) host
    = exec p_element
      ([] @ [Comment ''again''] @ SelectorStatement ''a'' p_a # [ExportStatement [''out''] ''a''])
      (Map.empty, PyDict []) host\<close>
    by (rule mp[OF replaced[THEN conjunct2] mid])
  show ?thesis by (rule conjI[OF ex conjI[OF one two]])
qed

subsection \<open>Exports at different paths\<close>

text \<open>
  C8 (amended).  An export statement at the path \<open>d\<close> that ends without an exception
  stores its list at \<open>d\<close> and leaves the value at every path \<open>q\<close> as it was, provided
  neither of \<open>d\<close> and \<open>q\<close> is a prefix of the other.  So two exports at \<^verbatim>\<open>a.b.c\<close> and
  \<^verbatim>\<open>a.b.d\<close> both end up under the same dictionary \<^verbatim>\<open>a.b\<close>.
\<close>

theorem export_frame:
  assumes "exec_stmt doc (ExportStatement d ref) (sels, ex) pr = (Inr (sels', ex'), pr')"
    and "\<not> prefix q d" and "\<not> prefix d q"
  shows "lookup_path q ex' = lookup_path q ex \<and> (\<exists>leaf. lookup_path d ex' = Some (PyList leaf))"
proof -
  from assms(1) have eb: "export_branch doc d ref (sels, ex) = Inr (sels', ex')" by simp
  from export_branch_frame[OF eb assms(2,3)] export_branch_stores[OF eb]
  show ?thesis by blast
qed

text \<open>
  \<^verbatim>\<open>export a.b.c = s\<close> and then \<^verbatim>\<open>export a.b.d = s\<close>.
\<close>

theorem export_frame_witness:
  \<open>lookup_path [''a'', ''b'', ''c'']
      (PyDict [(''a'', PyDict [(''b'', PyDict [
         (''c'', PyList [''<a href="/foo">a link.</a>'']),
         (''d'', PyList [''<a href="/foo">a link.</a>''])])])])
     = lookup_path [''a'', ''b'', ''c'']
      (PyDict [(''a'', PyDict [(''b'', PyDict [(''c'', PyList [''<a href="/foo">a link.</a>''])])])])
   \<and> exported (exec p_element
        [SelectorStatement ''s'' p_a, ExportStatement [''a'', ''b'', ''c''] ''s'',
         ExportStatement [''a'', ''b'', ''d''] ''s''] (Map.empty, PyDict []) host)
     = Some (PyDict [(''a'', PyDict [(''b'', PyDict [
         (''c'', PyList [''<a href="/foo">a link.</a>'']),
         (''d'', PyList [''<a href="/foo">a link.</a>''])])])])\<close>
proof -
  have step: \<open>exec_stmt p_element (ExportStatement [''a'', ''b'', ''d''] ''s'')
      ([''s'' \<mapsto> p_a],
       PyDict [(''a'', PyDict [(''b'', PyDict [(''c'', PyList [''<a href="/foo">a link.</a>''])])])])
      host
    = (Inr ([''s'' \<mapsto> p_a],
        PyDict [(''a'', PyDict [(''b'', PyDict [
         (''c'', PyList [''<a href="/foo">a link.</a>'']),
         (''d'', PyList [''<a href="/foo">a link.</a>''])])])]), host)\<close>
    by (simp add: p_element_def p_a_def ground)
  have "\<not> prefix [''a'', ''b'', ''c''] [''a'', ''b'', ''d'']"
    and "\<not> prefix [''a'', ''b'', ''d''] [''a'', ''b'', ''c'']" by simp_all
  from export_frame[OF step this] show ?thesis
    by (simp add: p_element_def p_a_def ground)
qed

text \<open>
  C8 as stated fails: \<^verbatim>\<open>a.b.c\<close> and \<^verbatim>\<open>a.b\<close> are distinct paths with the common proper
  prefix \<^verbatim>\<open>a\<close>, and the export at \<^verbatim>\<open>a.b\<close> replaces the dictionary that held the leaf of
  \<^verbatim>\<open>a.b.c\<close>.
\<close>

theorem export_overwrites_below:
  \<open>exported (exec p_element
       [SelectorStatement ''s'' p_a, ExportStatement [''a'', ''b'', ''c''] ''s'']
       (Map.empty, PyDict []) host)
     = Some (PyDict [(''a'', PyDict [(''b'', PyDict [(''c'', PyList [''<a href="/foo">a link.</a>''])])])])
   \<and> exported (exec p_element
       [SelectorStatement ''s'' p_a, ExportStatement [''a'', ''b'', ''c''] ''s'',
        ExportStatement [''a'', ''b''] ''s''] (Map.empty, PyDict []) host)
     = Some (PyDict [(''a'', PyDict [(''b'', PyList [''<a href="/foo">a link.</a>''])])])\<close>
  by (simp add: p_element_def p_a_def ground)

subsection \<open>Text that is no statement\<close>

text \<open>
  C9 (amended).  The grammar knows tokens, not lines: white space of any kind, line
  ends included, only separates tokens, so a statement may be spread over several
  lines.  For a text in which no \<^verbatim>\<open>#\<close> is followed by nothing but white space on its line:
  when \<^verbatim>\<open>parse\<close> returns statements, the text without its white space is the statements'
  keywords, words and operators, in order, so no text is left out.  And when the text
  up to a line end parses as statements, the parse of the whole text is these
  statements followed by the parse of the rest, and fails as the parse of the rest
  fails: when the rest goes on with text that starts no statement, \<^verbatim>\<open>parse\<close> raises the
  syntax error.  (What follows a \<^verbatim>\<open>#\<close> that stands alone on its line is left open here.)
\<close>

theorem parse_accounts_for_text:
  "(pypeg2_parse script = Inr ast \<longrightarrow> \<not> bare_hash script \<longrightarrow>
      nonspace script = nonspace (concat (map unparse ast)))
   \<and> (pypeg2_parse good = Inr sts \<longrightarrow> (good = [] \<or> last good = CHR 0x0A) \<longrightarrow> \<not> bare_hash good \<longrightarrow>
        pypeg2_parse (good @ rest)
          = (case pypeg2_parse rest of Inl e \<Rightarrow> Inl e | Inr sts2 \<Rightarrow> Inr (sts @ sts2))
        \<and> (list_all (\<lambda>c. (of_char c :: nat) < 128) rest \<longrightarrow> statement (skip rest) = None \<longrightarrow>
             skip rest \<noteq> [] \<longrightarrow> pypeg2_parse (good @ rest) = Inl SyntaxError))"
proof (intro conjI impI)
  assume "pypeg2_parse script = Inr ast"
  then obtain left where "maybe_some_statements (skip script) = (ast, left)" and "left = []"
    by (auto simp: pypeg2_parse_def split: prod.splits if_splits)
  with maybe_some_statements_ns[of "skip script" ast left]
  show "nonspace script = nonspace (concat (map unparse ast))"
    by (simp add: nonspace_skip nonspace_Nil)
next
  assume g: "pypeg2_parse good = Inr sts" "good = [] \<or> last good = CHR 0x0A" "\<not> bare_hash good"
  then show whole: "pypeg2_parse (good @ rest)
      = (case pypeg2_parse rest of Inl e \<Rightarrow> Inl e | Inr sts2 \<Rightarrow> Inr (sts @ sts2))"
    by (rule parse_append)
  assume "list_all (\<lambda>c. (of_char c :: nat) < 128) rest" and "statement (skip rest) = None"
    and "skip rest \<noteq> []"
  then have "pypeg2_parse rest = Inl SyntaxError"
    by (simp add: pypeg2_parse_def maybe_some_statements.simps[of "skip rest"])
  with whole show "pypeg2_parse (good @ rest) = Inl SyntaxError" by simp
qed

text \<open>
  A comment and a locale statement are accounted for.  After the line \<^verbatim>\<open>locale en_US\<close>,
  the rest \<^verbatim>\<open>selector paragraph = p -> a\<close> adds its statement, and the rest
  \<^verbatim>\<open>fetch everything\<close>, which starts no statement, is the syntax error.
\<close>

theorem parse_accounts_for_text_witness:
  "nonspace commented_script
     = nonspace (concat (map unparse [Comment ''the locale'', LocaleStatement ''en_US'']))
   \<and> pypeg2_parse (first_line @ ''selector paragraph = p -> a'')
       = Inr ([LocaleStatement ''en_US''] @ [SelectorStatement ''paragraph'' p_a])
   \<and> pypeg2_parse (first_line @ ''fetch everything'') = Inl SyntaxError"
proof -
  have c: "pypeg2_parse commented_script = Inr [Comment ''the locale'', LocaleStatement ''en_US'']"
    "\<not> bare_hash commented_script"
    by code_simp+
  have g: "pypeg2_parse first_line = Inr [LocaleStatement ''en_US'']"
    "first_line = [] \<or> last first_line = CHR 0x0A" "\<not> bare_hash first_line"
    by code_simp+
  have s: "pypeg2_parse ''selector paragraph = p -> a'' = Inr [SelectorStatement ''paragraph'' p_a]"
    by code_simp
  have f: "list_all (\<lambda>c. (of_char c :: nat) < 128) ''fetch everything''"
    "statement (skip ''fetch everything'') = None" "skip ''fetch everything'' \<noteq> []"
    by code_simp+
  note one = parse_accounts_for_text[where script = commented_script
      and ast = "[Comment ''the locale'', LocaleStatement ''en_US'']", THEN conjunct1]
  note two = parse_accounts_for_text[where good = first_line
      and sts = "[LocaleStatement ''en_US'']" and rest = "''selector paragraph = p -> a''",
      THEN conjunct2]
  note three = parse_accounts_for_text[where good = first_line
      and sts = "[LocaleStatement ''en_US'']" and rest = "''fetch everything''",
      THEN conjunct2]
  from mp[OF mp[OF one c(1)] c(2)]
  have 1: "nonspace commented_script
     = nonspace (concat (map unparse [Comment ''the locale'', LocaleStatement ''en_US'']))" .
  note after_two = mp[OF mp[OF mp[OF two g(1)] g(2)] g(3)]
  from conjunct1[OF after_two] s
  have 2: "pypeg2_parse (first_line @ ''selector paragraph = p -> a'')
       = Inr ([LocaleStatement ''en_US''] @ [SelectorStatement ''paragraph'' p_a])"
    by simp
  note after_three = mp[OF mp[OF mp[OF three g(1)] g(2)] g(3)]
  from mp[OF mp[OF mp[OF conjunct2[OF after_three] f(1)] f(2)] f(3)]
  have 3: "pypeg2_parse (first_line @ ''fetch everything'') = Inl SyntaxError" .
  show ?thesis by (rule conjI[OF 1 conjI[OF 2 3]])
qed

text \<open>
  C9 as stated fails: of the two lines \<^verbatim>\<open>locale\<close> and \<^verbatim>\<open>en_US\<close> neither is a statement
  (each alone is a syntax error) and neither is blank, and the text made of both is
  parsed as one locale statement.
\<close>

theorem statement_over_two_lines:
  "pypeg2_parse two_line_locale = Inr [LocaleStatement ''en_US'']
   \<and> pypeg2_parse ''locale'' = Inl SyntaxError
   \<and> pypeg2_parse ''en_US'' = Inl SyntaxError"
  by code_simp

subsection \<open>A leaf on the way of a longer path\<close>

text \<open>
  C10.  When an export statement at the path \<open>p\<close> is followed by an export statement at
  a longer path \<open>p @ r\<close>, the leaf is not turned into a dictionary: the run ends with an
  exception.  When no export path of a script is a proper prefix of another, no run
  of the script ends with the \<^verbatim>\<open>TypeError\<close> of a string index into a list.
\<close>

theorem leaf_prefix_conflict:
  "(r \<noteq> [] \<longrightarrow>
      isl (fst (exec doc (xs @ ExportStatement p n1 # ys @ ExportStatement (p @ r) n2 # zs) st pr)))
   \<and> ((\<forall>d \<in> set (export_paths ss). \<forall>p' \<in> set (export_paths ss). \<not> strict_prefix p' d) \<longrightarrow>
      fst (exec doc ss (sels, PyDict []) pr) \<noteq> Inl TypeError)"
proof (intro conjI impI)
  assume r: "r \<noteq> []"
  show "isl (fst (exec doc (xs @ ExportStatement p n1 # ys @ ExportStatement (p @ r) n2 # zs) st pr))"
  proof (cases "exec doc xs st pr")
    case (Pair r0 pr0)
    show ?thesis
    proof (cases r0)
      case (Inl e)
      with Pair show ?thesis by (simp add: exec_append)
    next
      case (Inr st0)
      obtain sels0 ex0 where "st0 = (sels0, ex0)" by (cases st0)
      with Pair Inr leaf_then_longer_export_fails[OF r, of doc p n1 ys n2 zs sels0 ex0 pr0]
      show ?thesis by (simp add: exec_append del: exec.simps)
    qed
  qed
next
  assume "\<forall>d \<in> set (export_paths ss). \<forall>p' \<in> set (export_paths ss). \<not> strict_prefix p' d"
  with exec_no_TypeError[OF leaves_within_empty, of ss doc sels pr]
  show "fst (exec doc ss (sels, PyDict []) pr) \<noteq> Inl TypeError" by simp
qed

text \<open>
  \<^verbatim>\<open>export a = s\<close> then \<^verbatim>\<open>export a.b = s\<close> ends with \<^verbatim>\<open>TypeError\<close>; \<^verbatim>\<open>export a.b = s\<close>
  then \<^verbatim>\<open>export a.c = s\<close> does not.
\<close>

theorem leaf_prefix_conflict_witness:
  "exec p_element
      ([SelectorStatement ''s'' p_a] @ ExportStatement [''a''] ''s'' # []
         @ ExportStatement ([''a''] @ [''b'']) ''s'' # [])
      (Map.empty, PyDict []) host = (Inl TypeError, host)
   \<and> fst (exec p_element
      [SelectorStatement ''s'' p_a, ExportStatement [''a'', ''b''] ''s'',
       ExportStatement [''a'', ''c''] ''s''] (Map.empty, PyDict []) host) \<noteq> Inl TypeError"
  using leaf_prefix_conflict[of "[''b'']" p_element "[SelectorStatement ''s'' p_a]" "[''a'']" "''s''"
      "[]" "''s''" "[]" "(Map.empty, PyDict [])" host
      "[SelectorStatement ''s'' p_a, ExportStatement [''a'', ''b''] ''s'',
        ExportStatement [''a'', ''c''] ''s'']" Map.empty]
  by (simp add: p_element_def p_a_def ground)

end
